theory Spec2Isabelle
  imports Main
begin

section \<open>JavaScript strings\<close>

text \<open>
  A JavaScript string is a sequence of UTF-16 code units. A code unit is modelled as a
  natural number, a string as a list of them. \<open>js\<close> turns an ASCII literal of the source
  (\<^verbatim>\<open>'name'\<close>, \<^verbatim>\<open>'#!'\<close>) into that representation.
\<close>

type_synonym jschar = nat
type_synonym jsstring = "jschar list"

definition js :: "string \<Rightarrow> jsstring" where
  "js s = map of_char s"

text \<open>
  The regular-expression class \<^verbatim>\<open>\s\<close> and \<^verbatim>\<open>String.prototype.trim\<close> use the same set:
  the WhiteSpace and LineTerminator code points of ECMAScript (tab, LF, VT, FF, CR, space,
  U+00A0, U+1680, U+2000..U+200A, U+2028, U+2029, U+202F, U+205F, U+3000, U+FEFF).
\<close>

definition isSpace :: "jschar \<Rightarrow> bool" where
  "isSpace c \<longleftrightarrow>
     c = 9 \<or> c = 10 \<or> c = 11 \<or> c = 12 \<or> c = 13 \<or> c = 32 \<or> c = 160 \<or> c = 5760 \<or>
     (8192 \<le> c \<and> c \<le> 8202) \<or> c = 8232 \<or> c = 8233 \<or> c = 8239 \<or> c = 8287 \<or>
     c = 12288 \<or> c = 65279"

text \<open>\<^verbatim>\<open>\w\<close> is \<^verbatim>\<open>[A-Za-z0-9_]\<close>; \<^verbatim>\<open>[\w-]\<close> adds the hyphen.\<close>

definition isWord :: "jschar \<Rightarrow> bool" where
  "isWord c \<longleftrightarrow> (48 \<le> c \<and> c \<le> 57) \<or> (65 \<le> c \<and> c \<le> 90) \<or> c = 95 \<or> (97 \<le> c \<and> c \<le> 122)"

definition isWordDash :: "jschar \<Rightarrow> bool" where
  "isWordDash c \<longleftrightarrow> isWord c \<or> c = 45"

text \<open>\<^verbatim>\<open>.\<close> (without the \<^verbatim>\<open>s\<close> flag) matches every code unit but LF, CR, U+2028 and U+2029.\<close>

definition isLineTerminator :: "jschar \<Rightarrow> bool" where
  "isLineTerminator c \<longleftrightarrow> c = 10 \<or> c = 13 \<or> c = 8232 \<or> c = 8233"

definition isDot :: "jschar \<Rightarrow> bool" where
  "isDot c \<longleftrightarrow> \<not> isLineTerminator c"

definition notQuote :: "jschar \<Rightarrow> bool" where
  "notQuote c \<longleftrightarrow> c \<noteq> 34"

definition trim :: "jsstring \<Rightarrow> jsstring" where
  "trim s = rev (dropWhile isSpace (rev (dropWhile isSpace s)))"

definition startsWith :: "jsstring \<Rightarrow> jsstring \<Rightarrow> bool" where
  "startsWith s p \<longleftrightarrow> take (length p) s = p"

definition endsWith :: "jsstring \<Rightarrow> jsstring \<Rightarrow> bool" where
  "endsWith s p \<longleftrightarrow> length p \<le> length s \<and> drop (length s - length p) s = p"

text \<open>\<^verbatim>\<open>content.split('\n')\<close>: the pieces between line feeds; never the empty list.\<close>

fun split_nl :: "jsstring \<Rightarrow> jsstring list" where
  "split_nl [] = [[]]"
| "split_nl (c # cs) =
     (if c = 10 then [] # split_nl cs
      else (case split_nl cs of [] \<Rightarrow> [[c]] | l # ls \<Rightarrow> (c # l) # ls))"

text \<open>
  \<^verbatim>\<open>value.split(/\s+/)\<close>: the pieces between maximal runs of whitespace. A run at the
  start or at the end of the string leaves an empty piece there, as in JavaScript. The
  flag tells that the scan is inside a run; the accumulator holds the current piece reversed.
\<close>

fun split_ws_from :: "bool \<Rightarrow> jsstring \<Rightarrow> jsstring \<Rightarrow> jsstring list" where
  "split_ws_from inrun acc [] = [rev acc]"
| "split_ws_from inrun acc (c # cs) =
     (if isSpace c then
        (if inrun then split_ws_from True acc cs else rev acc # split_ws_from True [] cs)
      else split_ws_from False (c # acc) cs)"

definition split_ws :: "jsstring \<Rightarrow> jsstring list" where
  "split_ws s = split_ws_from False [] s"

section \<open>The three regular expressions\<close>

text \<open>
  \<^verbatim>\<open>DIRECTIVE_RE = /^#\s*@(\w+)\s+(.*)/\<close>. The result is the pair of capture groups.
  Every quantifier is followed by a character outside its class (or by a group that always
  matches), so the greedy match is the only one: backtracking never finds another. There
  is no \<^verbatim>\<open>$\<close>: the second group stops at the first line terminator and the rest is ignored.
\<close>

definition DIRECTIVE_RE :: "jsstring \<Rightarrow> (jsstring \<times> jsstring) option" where
  "DIRECTIVE_RE s =
     (case s of
        [] \<Rightarrow> None
      | c # r0 \<Rightarrow>
          if c \<noteq> 35 then None
          else (case dropWhile isSpace r0 of
                  [] \<Rightarrow> None
                | a # r1 \<Rightarrow>
                    if a \<noteq> 64 then None
                    else if takeWhile isWord r1 = [] then None
                    else if takeWhile isSpace (dropWhile isWord r1) = [] then None
                    else Some (takeWhile isWord r1,
                               takeWhile isDot (dropWhile isSpace (dropWhile isWord r1)))))"

text \<open>
  An alternation of literals: the first alternative that is a prefix of the input, with
  the rest of the input. In \<^verbatim>\<open>(string|number|boolean)\<close> no alternative is a prefix of
  another, so at most one can match.
\<close>

fun match_alt :: "jsstring list \<Rightarrow> jsstring \<Rightarrow> (jsstring \<times> jsstring) option" where
  "match_alt [] s = None"
| "match_alt (p # ps) s =
     (if startsWith s p then Some (p, drop (length p) s) else match_alt ps s)"

definition arg_types :: "jsstring list" where
  "arg_types = [js ''string'', js ''number'', js ''boolean'']"

text \<open>
  The tail \<^verbatim>\<open>(?:\s+(\?|\.\.\.|(=.+)))?$\<close> of \<^verbatim>\<open>ARG_RE\<close>, on what follows the closing
  quote. The result holds groups 4 and 5 (\<open>None\<close> is JavaScript's \<^verbatim>\<open>undefined\<close>).
\<close>

definition ARG_modifier :: "jsstring \<Rightarrow> (jsstring option \<times> jsstring option) option" where
  "ARG_modifier r =
     (if r = [] then Some (None, None)
      else if takeWhile isSpace r = [] then None
      else let t = dropWhile isSpace r in
        if t = js ''?'' then Some (Some t, None)
        else if t = js ''...'' then Some (Some t, None)
        else (case t of
                [] \<Rightarrow> None
              | e # d \<Rightarrow>
                  if e = 61 \<and> d \<noteq> [] \<and> list_all isDot d then Some (Some t, Some t)
                  else None))"

text \<open>
  \<^verbatim>\<open>ARG_RE = /^(\w[\w-]*)\s+(string|number|boolean)\s+"([^"]+)"(?:\s+(\?|\.\.\.|(=.+)))?$/\<close>.
  The result holds groups 1 to 5.
\<close>

definition ARG_RE ::
  "jsstring \<Rightarrow> (jsstring \<times> jsstring \<times> jsstring \<times> jsstring option \<times> jsstring option) option" where
  "ARG_RE s =
     (case s of
        [] \<Rightarrow> None
      | c # cs \<Rightarrow>
          if \<not> isWord c then None
          else if takeWhile isSpace (dropWhile isWordDash cs) = [] then None
          else (case match_alt arg_types (dropWhile isSpace (dropWhile isWordDash cs)) of
                  None \<Rightarrow> None
                | Some (m2, r2) \<Rightarrow>
                    if takeWhile isSpace r2 = [] then None
                    else (case dropWhile isSpace r2 of
                            [] \<Rightarrow> None
                          | q # r3 \<Rightarrow>
                              if q \<noteq> 34 then None
                              else if takeWhile notQuote r3 = [] then None
                              else (case dropWhile notQuote r3 of
                                      [] \<Rightarrow> None
                                    | q' # r4 \<Rightarrow>
                                        (case ARG_modifier r4 of
                                           None \<Rightarrow> None
                                         | Some (m4, m5) \<Rightarrow>
                                             Some (c # takeWhile isWordDash cs, m2,
                                                   takeWhile notQuote r3, m4, m5))))))"

text \<open>\<^verbatim>\<open>ENV_RE = /^(\w+)(?:\s+"([^"]+)")?$/\<close>. The result holds groups 1 and 2.\<close>

definition ENV_RE :: "jsstring \<Rightarrow> (jsstring \<times> jsstring option) option" where
  "ENV_RE s =
     (if takeWhile isWord s = [] then None
      else if dropWhile isWord s = [] then Some (takeWhile isWord s, None)
      else if takeWhile isSpace (dropWhile isWord s) = [] then None
      else (case dropWhile isSpace (dropWhile isWord s) of
              [] \<Rightarrow> None
            | q # r \<Rightarrow>
                if q \<noteq> 34 then None
                else if takeWhile notQuote r = [] then None
                else if dropWhile notQuote r = [34]
                  then Some (takeWhile isWord s, Some (takeWhile notQuote r))
                else None))"

section \<open>parseScript\<close>

text \<open>
  The values that end up in the manifest. An object is the list of its own properties in
  creation order, as an object literal builds it.
\<close>

datatype jsval =
    JNull
  | JBool bool
  | JStr jsstring
  | JArr "jsval list"
  | JObj "(string \<times> jsval) list"

fun obj_props :: "jsval \<Rightarrow> (string \<times> jsval) list" where
  "obj_props (JObj ps) = ps"
| "obj_props v = []"

definition obj_keys :: "jsval \<Rightarrow> string list" where
  "obj_keys v = map fst (obj_props v)"

definition obj_get :: "jsval \<Rightarrow> string \<Rightarrow> jsval option" where
  "obj_get v k = map_of (obj_props v) k"

text \<open>A string or \<^verbatim>\<open>null\<close>/\<^verbatim>\<open>undefined\<close>: what \<^verbatim>\<open>!x\<close> and \<^verbatim>\<open>x ? a : b\<close> test.\<close>

definition truthy :: "jsstring option \<Rightarrow> bool" where
  "truthy x = (case x of None \<Rightarrow> False | Some s \<Rightarrow> s \<noteq> [])"

definition nullable :: "jsstring option \<Rightarrow> jsval" where
  "nullable x = (case x of None \<Rightarrow> JNull | Some s \<Rightarrow> JStr s)"

record meta =
  name :: "jsstring option"
  description :: "jsstring option"
  args :: "jsval list"
  deps :: "jsstring list"
  envs :: "jsstring list"
  "output" :: jsstring
  header :: "jsstring list"
  category :: "jsstring option"
  tags :: "jsstring list"
  author :: "jsstring option"
  platform :: jsstring
  examples :: "jsstring list"
  stdin :: bool
  version :: "jsstring option"

definition initial_meta :: meta where
  "initial_meta =
     \<lparr> name = None, description = None, args = [], deps = [], envs = [],
       output = js ''text'', header = [], category = None, tags = [], author = None,
       platform = js ''all'', examples = [], stdin = False, version = None \<rparr>"

text \<open>
  The object pushed for an \<^verbatim>\<open>@arg\<close> line, from the groups of \<^verbatim>\<open>ARG_RE\<close>. The two
  spreads add the keys \<^verbatim>\<open>variadic\<close> and \<^verbatim>\<open>default\<close> only under their conditions.
\<close>

definition arg_object ::
  "jsstring \<Rightarrow> jsstring \<Rightarrow> jsstring \<Rightarrow> jsstring option \<Rightarrow> jsstring option \<Rightarrow> jsval" where
  "arg_object m1 m2 m3 m4 m5 =
     JObj ([(''name'', JStr m1), (''type'', JStr m2), (''description'', JStr m3),
            (''required'', JBool (\<not> truthy m4))]
           @ (if m4 = Some (js ''...'') then [(''variadic'', JBool True)] else [])
           @ (case m5 of
                None \<Rightarrow> []
              | Some d \<Rightarrow> if d \<noteq> [] then [(''default'', JStr (drop 1 d))] else []))"

text \<open>The \<^verbatim>\<open>switch (directive)\<close> of the loop body.\<close>

definition apply_directive :: "meta \<Rightarrow> jsstring \<Rightarrow> jsstring \<Rightarrow> meta" where
  "apply_directive m directive v =
     (if directive = js ''name'' then m\<lparr>name := Some v\<rparr>
      else if directive = js ''description'' then m\<lparr>description := Some v\<rparr>
      else if directive = js ''arg'' then
        (case ARG_RE v of
           None \<Rightarrow> m
         | Some (m1, m2, m3, m4, m5) \<Rightarrow> m\<lparr>args := args m @ [arg_object m1 m2 m3 m4 m5]\<rparr>)
      else if directive = js ''dep'' then m\<lparr>deps := deps m @ [v]\<rparr>
      else if directive = js ''env'' then
        (case ENV_RE v of
           None \<Rightarrow> m
         | Some (e1, e2) \<Rightarrow> m\<lparr>envs := envs m @ [e1]\<rparr>)
      else if directive = js ''output'' then m\<lparr>output := v\<rparr>
      else if directive = js ''header'' then m\<lparr>header := split_ws v\<rparr>
      else if directive = js ''category'' then m\<lparr>category := Some v\<rparr>
      else if directive = js ''tag'' then m\<lparr>tags := tags m @ [v]\<rparr>
      else if directive = js ''author'' then m\<lparr>author := Some v\<rparr>
      else if directive = js ''platform'' then m\<lparr>platform := v\<rparr>
      else if directive = js ''example'' then m\<lparr>examples := examples m @ [v]\<rparr>
      else if directive = js ''stdin'' then m\<lparr>stdin := (v = js ''true'')\<rparr>
      else if directive = js ''version'' then m\<lparr>version := Some v\<rparr>
      else m)"

text \<open>
  The \<^verbatim>\<open>for (const line of lines)\<close> loop, on the record and the flag
  \<^verbatim>\<open>seenDirective\<close>. \<^verbatim>\<open>continue\<close> is the recursive call on the remaining lines,
  \<^verbatim>\<open>break\<close> returns the record.
\<close>

fun parse_lines :: "meta \<Rightarrow> bool \<Rightarrow> jsstring list \<Rightarrow> meta" where
  "parse_lines m seenDirective [] = m"
| "parse_lines m seenDirective (line # lines) =
     (let trimmed = trim line in
      if startsWith trimmed (js ''#!'') then parse_lines m seenDirective lines
      else (case DIRECTIVE_RE trimmed of
              None \<Rightarrow>
                if seenDirective \<and> trimmed \<noteq> [] \<and> \<not> startsWith trimmed (js ''#'') then m
                else parse_lines m seenDirective lines
            | Some (directive, rawValue) \<Rightarrow>
                parse_lines (apply_directive m directive (trim rawValue)) True lines))"

definition parseScript :: "jsstring \<Rightarrow> meta" where
  "parseScript content = parse_lines initial_meta False (split_nl content)"

text \<open>The predicates on lines that the loop distinguishes.\<close>

definition recognized_tags :: "jsstring list" where
  "recognized_tags =
     [js ''name'', js ''description'', js ''arg'', js ''dep'', js ''env'', js ''output'',
      js ''header'', js ''category'', js ''tag'', js ''author'', js ''platform'',
      js ''example'', js ''stdin'', js ''version'']"

text \<open>A line the loop recognizes as a directive: it reaches \<^verbatim>\<open>seenDirective = true\<close>.\<close>

definition is_directive_line :: "jsstring \<Rightarrow> bool" where
  "is_directive_line l \<longleftrightarrow>
     \<not> startsWith (trim l) (js ''#!'') \<and> DIRECTIVE_RE (trim l) \<noteq> None"

text \<open>
  A line on which the loop breaks once a directive has been seen: no match, not blank, and
  not a comment, where a comment is a line whose first character is \<^verbatim>\<open>#\<close>.
\<close>

definition terminates_scan :: "jsstring \<Rightarrow> bool" where
  "terminates_scan l \<longleftrightarrow>
     \<not> startsWith (trim l) (js ''#!'') \<and> DIRECTIVE_RE (trim l) = None \<and>
     trim l \<noteq> [] \<and> \<not> startsWith (trim l) (js ''#'')"

text \<open>The five output formats that the authoring guide lists for \<^verbatim>\<open>@output\<close>.\<close>

definition output_formats :: "jsstring list" where
  "output_formats = [js ''text'', js ''tsv'', js ''csv'', js ''json'', js ''ndjson'']"

section \<open>walkDir and buildManifest\<close>

text \<open>
  A path is the list of its segments (an absolute, normalized POSIX path);
  \<^verbatim>\<open>path.join(dir, entry.name)\<close> appends a segment, \<^verbatim>\<open>path.join(dir, '..')\<close> removes the
  last one. \<open>path_str\<close> is the text of a relative path, its segments joined by \<^verbatim>\<open>/\<close>.
\<close>

type_synonym path = "jsstring list"

fun path_str :: "path \<Rightarrow> jsstring" where
  "path_str [] = []"
| "path_str [x] = x"
| "path_str (x # y # ys) = x @ 47 # path_str (y # ys)"

text \<open>
  \<^verbatim>\<open>path.relative(from, to)\<close> of Node, on segments: the common leading segments are
  dropped, each remaining segment of \<open>from\<close> becomes \<^verbatim>\<open>..\<close>, then come the remaining
  segments of \<open>to\<close>.
\<close>

fun path_relative :: "path \<Rightarrow> path \<Rightarrow> path" where
  "path_relative [] to = to"
| "path_relative (f # fs) [] = replicate (length (f # fs)) (js ''..'')"
| "path_relative (f # fs) (t # ts) =
     (if f = t then path_relative fs ts
      else replicate (length (f # fs)) (js ''..'') @ t # ts)"

text \<open>
  What \<^verbatim>\<open>readdirSync(dir, { withFileTypes: true })\<close> finds below a directory: the entries
  in the order they are returned, each a directory (listed in turn, or one whose listing
  throws) or anything else.
\<close>

datatype fsnode =
    File
  | Dir "(jsstring \<times> fsnode) list"
  | DirUnreadable

datatype io_error =
    ReaddirFailed path
  | ReadFileFailed path

fun isDirectory :: "fsnode \<Rightarrow> bool" where
  "isDirectory File = False"
| "isDirectory (Dir es) = True"
| "isDirectory DirUnreadable = True"

definition eligible :: "jsstring \<Rightarrow> bool" where
  "eligible nm \<longleftrightarrow> endsWith nm (js ''.sh'') \<and> \<not> startsWith nm (js ''_'')"

text \<open>
  \<open>walkDir node dir base\<close> is \<^verbatim>\<open>walkDir(dir, base)\<close> where \<open>node\<close> is what the file
  system holds at \<open>dir\<close>; \<open>walk_entries\<close> is its loop. An entry is the pair of
  \<^verbatim>\<open>fullPath\<close> and \<^verbatim>\<open>relativePath\<close>. An exception of \<^verbatim>\<open>readdirSync\<close> ends the walk.
\<close>

fun walkDir :: "fsnode \<Rightarrow> path \<Rightarrow> path \<Rightarrow> io_error + (path \<times> jsstring) list"
  and walk_entries ::
    "(jsstring \<times> fsnode) list \<Rightarrow> path \<Rightarrow> path \<Rightarrow> io_error + (path \<times> jsstring) list" where
  "walkDir File dir base = Inl (ReaddirFailed dir)"
| "walkDir DirUnreadable dir base = Inl (ReaddirFailed dir)"
| "walkDir (Dir es) dir base = walk_entries es dir base"
| "walk_entries [] dir base = Inr []"
| "walk_entries ((nm, node) # es) dir base =
     (if isDirectory node then
        (case walkDir node (dir @ [nm]) base of
           Inl e \<Rightarrow> Inl e
         | Inr sub \<Rightarrow>
             (case walk_entries es dir base of
                Inl e \<Rightarrow> Inl e
              | Inr found \<Rightarrow> Inr (sub @ found)))
      else if eligible nm then
        (case walk_entries es dir base of
           Inl e \<Rightarrow> Inl e
         | Inr found \<Rightarrow> Inr ((dir @ [nm], path_str (path_relative base (dir @ [nm]))) # found))
      else walk_entries es dir base)"

text \<open>The object stored for an accepted script.\<close>

definition script_entry :: "meta \<Rightarrow> jsstring \<Rightarrow> jsval" where
  "script_entry m relativePath =
     JObj [(''name'', nullable (name m)),
           (''description'', nullable (description m)),
           (''args'', JArr (args m)),
           (''deps'', JArr (map JStr (deps m))),
           (''envs'', JArr (map JStr (envs m))),
           (''output'', JStr (output m)),
           (''header'', JArr (map JStr (header m))),
           (''category'', nullable (category m)),
           (''tags'', JArr (map JStr (tags m))),
           (''author'', nullable (author m)),
           (''platform'', JStr (platform m)),
           (''examples'', JArr (map JStr (examples m))),
           (''path'', JStr relativePath),
           (''version'', nullable (version m))]"

text \<open>
  \<^verbatim>\<open>scripts[key] = value\<close> on the plain object \<^verbatim>\<open>scripts = {}\<close>, seen through its own
  properties (what \<^verbatim>\<open>Object.keys\<close> and \<^verbatim>\<open>JSON.stringify\<close> read). The key
  \<^verbatim>\<open>__proto__\<close> is the accessor inherited from \<^verbatim>\<open>Object.prototype\<close>: assigning an
  object to it replaces the prototype and creates no own property.
\<close>

definition assign_property ::
  "(jsstring \<rightharpoonup> jsval) \<Rightarrow> jsstring \<Rightarrow> jsval \<Rightarrow> (jsstring \<rightharpoonup> jsval)" where
  "assign_property obj k v = (if k = js ''__proto__'' then obj else obj(k \<mapsto> v))"

text \<open>The property key of \<^verbatim>\<open>scripts[meta.name]\<close>.\<close>

definition property_key :: "jsstring option \<Rightarrow> jsstring" where
  "property_key x = (case x of None \<Rightarrow> js ''null'' | Some s \<Rightarrow> s)"

text \<open>
  The loop of \<^verbatim>\<open>buildManifest\<close> over the entries, on \<^verbatim>\<open>scripts\<close> and \<^verbatim>\<open>errors\<close>.
  \<open>readFileSync\<close> gives the text of a file, \<open>None\<close> where reading throws.
\<close>

fun build_loop ::
  "(path \<Rightarrow> jsstring option) \<Rightarrow> (jsstring \<rightharpoonup> jsval) \<Rightarrow> jsstring list \<Rightarrow>
   (path \<times> jsstring) list \<Rightarrow> io_error + (jsstring \<rightharpoonup> jsval) \<times> jsstring list" where
  "build_loop readFileSync scripts errors [] = Inr (scripts, errors)"
| "build_loop readFileSync scripts errors ((fullPath, relativePath) # entries) =
     (case readFileSync fullPath of
        None \<Rightarrow> Inl (ReadFileFailed fullPath)
      | Some content \<Rightarrow>
          if \<not> truthy (name (parseScript content)) then
            build_loop readFileSync scripts
              (errors @ [relativePath @ js '': missing @name'']) entries
          else if \<not> truthy (description (parseScript content)) then
            build_loop readFileSync scripts
              (errors @ [relativePath @ js '': missing @description'']) entries
          else
            build_loop readFileSync
              (assign_property scripts (property_key (name (parseScript content)))
                 (script_entry (parseScript content) relativePath))
              errors entries)"

record manifest =
  format_version :: nat
  updated :: jsstring
  scripts :: "jsstring \<rightharpoonup> jsval"

text \<open>
  \<open>buildManifest\<close> on its surroundings: \<open>dirname\<close> is \<^verbatim>\<open>__dirname\<close>, \<open>tree\<close> is what
  the file system holds at \<^verbatim>\<open>SCRIPTS_DIR\<close>, \<open>now\<close> is \<^verbatim>\<open>new Date().toISOString()\<close>.
  The result is the manifest that is written, with the list of warnings that is printed.
\<close>

definition repoRoot :: "path \<Rightarrow> path" where
  "repoRoot dirname = butlast dirname"

definition SCRIPTS_DIR :: "path \<Rightarrow> path" where
  "SCRIPTS_DIR dirname = butlast dirname @ [js ''scripts'']"

definition buildManifest ::
  "path \<Rightarrow> fsnode \<Rightarrow> (path \<Rightarrow> jsstring option) \<Rightarrow> jsstring \<Rightarrow>
   io_error + manifest \<times> jsstring list" where
  "buildManifest dirname tree readFileSync now =
     (case walkDir tree (SCRIPTS_DIR dirname) (repoRoot dirname) of
        Inl e \<Rightarrow> Inl e
      | Inr entries \<Rightarrow>
          (case build_loop readFileSync Map.empty [] entries of
             Inl e \<Rightarrow> Inl e
           | Inr (collected, errors) \<Rightarrow>
               Inr (\<lparr> format_version = 1, updated = now, scripts = collected \<rparr>, errors)))"

section \<open>Notions for the statements about the builder\<close>

text \<open>A record that has a name and a description.\<close>

definition accepted :: "meta \<Rightarrow> bool" where
  "accepted m \<longleftrightarrow> name m \<noteq> None \<and> description m \<noteq> None"

text \<open>
  The warnings of one file as the specification words them: a record without a name gives
  the one warning \<^verbatim>\<open><relative-path>: missing @name\<close>; otherwise a record without a
  description gives \<^verbatim>\<open><relative-path>: missing @description\<close>; otherwise none.
\<close>

definition spec_warnings :: "jsstring \<Rightarrow> meta \<Rightarrow> jsstring list" where
  "spec_warnings relativePath m =
     (if name m = None then [relativePath @ js '': missing @name'']
      else if description m = None then [relativePath @ js '': missing @description'']
      else [])"

definition entry_warnings :: "(path \<Rightarrow> jsstring option) \<Rightarrow> path \<times> jsstring \<Rightarrow> jsstring list" where
  "entry_warnings readFileSync entry =
     (case readFileSync (fst entry) of
        None \<Rightarrow> []
      | Some content \<Rightarrow> spec_warnings (snd entry) (parseScript content))"

text \<open>The entry \<open>e\<close> under the key \<open>k\<close> is what the loop stores for the walked entry.\<close>

definition stored_by ::
  "(path \<Rightarrow> jsstring option) \<Rightarrow> path \<times> jsstring \<Rightarrow> jsstring \<Rightarrow> jsval \<Rightarrow> bool" where
  "stored_by readFileSync entry k e \<longleftrightarrow>
     (case readFileSync (fst entry) of
        None \<Rightarrow> False
      | Some content \<Rightarrow>
          accepted (parseScript content) \<and>
          k = property_key (name (parseScript content)) \<and>
          e = script_entry (parseScript content) (snd entry))"

text \<open>The walked entry is an eligible file below \<open>dir\<close>, with its path relative to \<open>base\<close>.\<close>

definition below :: "path \<Rightarrow> path \<Rightarrow> path \<times> jsstring \<Rightarrow> bool" where
  "below dir base en \<longleftrightarrow>
     (\<exists>p. p \<noteq> [] \<and> eligible (last p) \<and> fst en = dir @ p \<and>
          snd en = path_str (path_relative base (dir @ p)))"

text \<open>What a run of \<^verbatim>\<open>buildManifest\<close> leaves: the scripts mapping, the warnings, a field of an entry.\<close>

definition built_scripts :: "io_error + manifest \<times> jsstring list \<Rightarrow> (jsstring \<rightharpoonup> jsval)" where
  "built_scripts r = (case r of Inl e \<Rightarrow> Map.empty | Inr (mf, errors) \<Rightarrow> scripts mf)"

definition built_errors :: "io_error + manifest \<times> jsstring list \<Rightarrow> jsstring list option" where
  "built_errors r = (case r of Inl e \<Rightarrow> None | Inr (mf, errors) \<Rightarrow> Some errors)"

definition built_field ::
  "io_error + manifest \<times> jsstring list \<Rightarrow> jsstring \<Rightarrow> string \<Rightarrow> jsval option" where
  "built_field r k f = (case built_scripts r k of None \<Rightarrow> None | Some e \<Rightarrow> obj_get e f)"

text \<open>The fields of a manifest entry that the specification lists.\<close>

definition entry_fields :: "string list" where
  "entry_fields =
     [''name'', ''description'', ''args'', ''deps'', ''envs'', ''output'', ''header'',
      ''category'', ''tags'', ''author'', ''platform'', ''examples'', ''path'', ''version'']"

section \<open>Sample directories\<close>

text \<open>
  The tool in \<^verbatim>\<open>/repo/tools\<close>, so that the scripts are below \<^verbatim>\<open>/repo/scripts\<close>; one
  script in a subdirectory; a directory with rejected, ignored and accepted files; two files
  of the same name, once \<^verbatim>\<open>foo\<close> and once \<^verbatim>\<open>__proto__\<close>.
\<close>

definition tools_dir :: path where
  "tools_dir = [js ''repo'', js ''tools'']"

definition one_script_tree :: fsnode where
  "one_script_tree = Dir [(js ''web'', Dir [(js ''foo.sh'', File)])]"

definition one_script_files :: "path \<Rightarrow> jsstring option" where
  "one_script_files =
     map_of [([js ''repo'', js ''scripts'', js ''web'', js ''foo.sh''],
              js ''#!/bin/bash\<newline># @name foo\<newline># @description d\<newline># @stdin true'')]"

definition mixed_tree :: fsnode where
  "mixed_tree =
     Dir [(js ''a.sh'', File), (js ''b.sh'', File), (js ''_t.sh'', File),
          (js ''sub'', Dir [(js ''c.sh'', File), (js ''readme.md'', File)]),
          (js ''d.sh'', File)]"

definition mixed_files :: "path \<Rightarrow> jsstring option" where
  "mixed_files =
     map_of [([js ''repo'', js ''scripts'', js ''a.sh''], js ''# @description only''),
             ([js ''repo'', js ''scripts'', js ''b.sh''], js ''# @name b''),
             ([js ''repo'', js ''scripts'', js ''sub'', js ''c.sh''],
              js ''# @name c\<newline># @description d''),
             ([js ''repo'', js ''scripts'', js ''d.sh''], js ''echo hi'')]"

definition twin_tree :: fsnode where
  "twin_tree = Dir [(js ''a.sh'', File), (js ''b.sh'', File)]"

definition proto_files :: "path \<Rightarrow> jsstring option" where
  "proto_files =
     map_of [([js ''repo'', js ''scripts'', js ''a.sh''],
              js ''# @name __proto__\<newline># @description first''),
             ([js ''repo'', js ''scripts'', js ''b.sh''],
              js ''# @name __proto__\<newline># @description second'')]"

definition twin_files :: "path \<Rightarrow> jsstring option" where
  "twin_files =
     map_of [([js ''repo'', js ''scripts'', js ''a.sh''],
              js ''# @name foo\<newline># @description first''),
             ([js ''repo'', js ''scripts'', js ''b.sh''],
              js ''# @name foo\<newline># @description second'')]"

section \<open>Evaluation and basic facts\<close>

lemmas ev = js_def isSpace_def isWord_def isWordDash_def isLineTerminator_def isDot_def
  notQuote_def trim_def startsWith_def endsWith_def split_ws_def DIRECTIVE_RE_def arg_types_def
  ARG_modifier_def ARG_RE_def ENV_RE_def obj_keys_def obj_get_def truthy_def nullable_def
  initial_meta_def arg_object_def apply_directive_def parseScript_def Let_def
  is_directive_line_def terminates_scan_def recognized_tags_def

lemma takeWhile_run:
  "list_all P xs \<Longrightarrow> ys = [] \<or> \<not> P (hd ys) \<Longrightarrow> takeWhile P (xs @ ys) = xs"
  by (induction xs) (cases ys; auto)+

lemma dropWhile_run:
  "list_all P xs \<Longrightarrow> dropWhile P (xs @ ys) = dropWhile P ys"
  by (induction xs) auto

lemma dropWhile_stop:
  "ys = [] \<or> \<not> P (hd ys) \<Longrightarrow> dropWhile P ys = ys"
  by (cases ys) auto

lemma space_not_word: "isSpace c \<Longrightarrow> \<not> isWord c"
  by (auto simp: isSpace_def isWord_def)

lemma space_not_wordDash: "isSpace c \<Longrightarrow> \<not> isWordDash c"
  by (auto simp: isSpace_def isWord_def isWordDash_def)

lemma hd_run: "xs \<noteq> [] \<Longrightarrow> list_all P xs \<Longrightarrow> P (hd (xs @ ys))"
  by (cases xs) auto

lemma DIRECTIVE_RE_shape:
  assumes "list_all isSpace ws0" and "tag \<noteq> []" and "list_all isWord tag"
    and "ws \<noteq> []" and "list_all isSpace ws"
  shows "DIRECTIVE_RE (35 # ws0 @ 64 # tag @ ws @ rest) =
           Some (tag, takeWhile isDot (dropWhile isSpace rest))"
proof -
  have a: "dropWhile isSpace (ws0 @ 64 # tag @ ws @ rest) = 64 # tag @ ws @ rest"
    using assms(1) by (simp add: dropWhile_run isSpace_def)
  have hd_ws: "isSpace (hd (ws @ rest))"
    using assms(4,5) by (rule hd_run)
  have b: "takeWhile isWord (tag @ ws @ rest) = tag"
    using assms(3) hd_ws by (intro takeWhile_run) (auto simp: space_not_word)
  have c: "dropWhile isWord (tag @ ws @ rest) = ws @ rest"
    using assms(3) hd_ws by (simp add: dropWhile_run dropWhile_stop space_not_word)
  have d: "takeWhile isSpace (ws @ rest) \<noteq> []"
    using assms(4,5) by (cases ws) auto
  have e: "dropWhile isSpace (ws @ rest) = dropWhile isSpace rest"
    using assms(5) by (simp add: dropWhile_run)
  show ?thesis
    using a b c d e assms(2) by (simp add: DIRECTIVE_RE_def)
qed

lemma DIRECTIVE_RE_not_shebang:
  assumes "DIRECTIVE_RE t = Some r"
  shows "\<not> startsWith t (js ''#!'')"
proof (cases t)
  case Nil
  then show ?thesis by (simp add: startsWith_def js_def)
next
  case (Cons c r0)
  show ?thesis
  proof (cases r0)
    case Nil
    with Cons show ?thesis by (simp add: startsWith_def js_def)
  next
    case (Cons b r1)
    with \<open>t = c # r0\<close> assms show ?thesis
      by (auto simp: DIRECTIVE_RE_def startsWith_def js_def isSpace_def split: if_splits)
  qed
qed

lemma slashes_terminate: "trim l = js ''//'' @ r \<Longrightarrow> terminates_scan l"
  by (simp add: terminates_scan_def DIRECTIVE_RE_def startsWith_def js_def)

section \<open>The loop, line by line\<close>

lemma parse_lines_directive:
  "DIRECTIVE_RE (trim l) = Some (tag, raw) \<Longrightarrow>
   parse_lines m s (l # lines) = parse_lines (apply_directive m tag (trim raw)) True lines"
  using DIRECTIVE_RE_not_shebang [of "trim l" "(tag, raw)"] by (simp add: Let_def)

lemma parse_lines_not_directive:
  "\<not> is_directive_line l \<Longrightarrow>
   parse_lines m s (l # lines) = (if s \<and> terminates_scan l then m else parse_lines m s lines)"
  by (auto simp: Let_def is_directive_line_def terminates_scan_def split: option.splits)

lemma terminates_not_directive: "terminates_scan l \<Longrightarrow> \<not> is_directive_line l"
  by (simp add: terminates_scan_def is_directive_line_def)

lemma is_directive_lineI: "DIRECTIVE_RE (trim l) = Some r \<Longrightarrow> is_directive_line l"
  using DIRECTIVE_RE_not_shebang [of "trim l" r] by (simp add: is_directive_line_def)

declare parse_lines.simps(2) [simp del]

lemma parse_lines_terminated:
  "s \<or> (\<exists>d\<in>set pre. is_directive_line d) \<Longrightarrow> terminates_scan l \<Longrightarrow>
   parse_lines m s (pre @ l # post) = parse_lines m s pre"
proof (induction pre arbitrary: m s)
  case Nil
  then show ?case by (simp add: parse_lines_not_directive terminates_not_directive)
next
  case (Cons x xs)
  show ?case
  proof (cases "is_directive_line x")
    case True
    then obtain tag raw where m: "DIRECTIVE_RE (trim x) = Some (tag, raw)"
      by (auto simp: is_directive_line_def)
    have "parse_lines (apply_directive m tag (trim raw)) True (xs @ l # post) =
          parse_lines (apply_directive m tag (trim raw)) True xs"
      using Cons.prems(2) by (intro Cons.IH) simp_all
    then show ?thesis
      using m by (simp only: append_Cons parse_lines_directive)
  next
    case False
    show ?thesis
    proof (cases "s \<and> terminates_scan x")
      case True
      with False show ?thesis by (simp add: parse_lines_not_directive)
    next
      case nt: False
      have "s \<or> (\<exists>d\<in>set xs. is_directive_line d)"
        using Cons.prems(1) False by auto
      then have "parse_lines m s (xs @ l # post) = parse_lines m s xs"
        using Cons.prems(2) by (intro Cons.IH)
      with False nt show ?thesis by (auto simp: parse_lines_not_directive)
    qed
  qed
qed

lemma parse_lines_skipped:
  "\<forall>x\<in>set pre. \<not> is_directive_line x \<Longrightarrow>
   parse_lines m False (pre @ post) = parse_lines m False post"
proof (induction pre)
  case Nil
  then show ?case by simp
next
  case (Cons x xs)
  then show ?case by (simp add: parse_lines_not_directive)
qed

lemma parse_lines_no_directive:
  "\<forall>x\<in>set ls. \<not> is_directive_line x \<Longrightarrow> parse_lines m s ls = m"
proof (induction ls)
  case Nil
  then show ?case by simp
next
  case (Cons x xs)
  then show ?case by (simp add: parse_lines_not_directive)
qed

text \<open>A line that is a directive and leaves the record as it is can be removed once
  a directive has been seen before it.\<close>

lemma parse_lines_inert:
  assumes "DIRECTIVE_RE (trim l) = Some (tag, raw)"
    and "\<And>m. apply_directive m tag (trim raw) = m"
  shows "s \<or> (\<exists>d\<in>set pre. is_directive_line d) \<Longrightarrow>
         parse_lines m s (pre @ l # post) = parse_lines m s (pre @ post)"
proof (induction pre arbitrary: m s)
  case Nil
  then show ?case
    using assms by (simp add: parse_lines_directive)
next
  case (Cons x xs)
  show ?case
  proof (cases "is_directive_line x")
    case True
    then obtain t r where m: "DIRECTIVE_RE (trim x) = Some (t, r)"
      by (auto simp: is_directive_line_def)
    have "parse_lines (apply_directive m t (trim r)) True (xs @ l # post) =
          parse_lines (apply_directive m t (trim r)) True (xs @ post)"
      by (intro Cons.IH) simp
    then show ?thesis
      using m by (simp only: append_Cons parse_lines_directive)
  next
    case False
    show ?thesis
    proof (cases "s \<and> terminates_scan x")
      case True
      with False show ?thesis by (simp add: parse_lines_not_directive)
    next
      case nt: False
      have "s \<or> (\<exists>d\<in>set xs. is_directive_line d)"
        using Cons.prems(1) False by auto
      then have "parse_lines m s (xs @ l # post) = parse_lines m s (xs @ post)"
        by (intro Cons.IH)
      with False nt show ?thesis by (auto simp: parse_lines_not_directive)
    qed
  qed
qed

lemma apply_directive_unknown:
  "tag \<notin> set recognized_tags \<Longrightarrow> apply_directive m tag v = m"
  by (simp add: recognized_tags_def apply_directive_def)

lemma apply_directive_output:
  "output (apply_directive m tag v) = (if tag = js ''output'' then v else output m)"
  by (simp add: apply_directive_def js_def split: option.splits prod.splits)

lemma parse_lines_output:
  "output (parse_lines m s ls) = output m \<or>
   (\<exists>l\<in>set ls. \<exists>raw. DIRECTIVE_RE (trim l) = Some (js ''output'', raw) \<and>
                      output (parse_lines m s ls) = trim raw)"
proof (induction ls arbitrary: m s)
  case Nil
  then show ?case by simp
next
  case (Cons x xs)
  show ?case
  proof (cases "is_directive_line x")
    case True
    then obtain tag raw where m: "DIRECTIVE_RE (trim x) = Some (tag, raw)"
      by (auto simp: is_directive_line_def)
    let ?m' = "apply_directive m tag (trim raw)"
    have step: "parse_lines m s (x # xs) = parse_lines ?m' True xs"
      using m by (rule parse_lines_directive)
    from Cons.IH [of ?m' True] show ?thesis
    proof
      assume same: "output (parse_lines ?m' True xs) = output ?m'"
      show ?thesis
      proof (cases "tag = js ''output''")
        case True
        with same step m show ?thesis by (auto simp: apply_directive_output)
      next
        case False
        with same step show ?thesis by (simp add: apply_directive_output)
      qed
    next
      assume "\<exists>l\<in>set xs. \<exists>raw. DIRECTIVE_RE (trim l) = Some (js ''output'', raw) \<and>
                output (parse_lines ?m' True xs) = trim raw"
      with step show ?thesis by auto
    qed
  next
    case False
    with Cons.IH [of m s] show ?thesis
      by (auto simp: parse_lines_not_directive)
  qed
qed

section \<open>Directive values are never empty\<close>

text \<open>
  The trimmed line does not end in whitespace, so the whitespace after the tag is followed
  by a character that is no whitespace, hence no line terminator: the value of a directive
  is not empty. A name or description that the parser has set is therefore a non-empty
  string, and the tests \<^verbatim>\<open>!meta.name\<close> and \<^verbatim>\<open>!meta.description\<close> of the builder
  hold exactly when the field is still \<^verbatim>\<open>null\<close>.
\<close>

lemma line_terminator_is_space: "isLineTerminator c \<Longrightarrow> isSpace c"
  by (auto simp: isLineTerminator_def isSpace_def)

lemma last_dropWhile: "dropWhile P xs \<noteq> [] \<Longrightarrow> last (dropWhile P xs) = last xs"
  by (induction xs) (auto split: if_splits)

lemma trim_last: "trim s \<noteq> [] \<Longrightarrow> \<not> isSpace (last (trim s))"
proof -
  assume ne: "trim s \<noteq> []"
  let ?t = "dropWhile isSpace (rev (dropWhile isSpace s))"
  from ne have "?t \<noteq> []" by (simp add: trim_def)
  then have "\<not> isSpace (hd ?t)" by (rule hd_dropWhile)
  moreover have "last (trim s) = hd ?t"
    using \<open>?t \<noteq> []\<close> by (simp add: trim_def last_rev)
  ultimately show ?thesis by simp
qed

lemma trim_nonempty: "xs \<noteq> [] \<Longrightarrow> \<not> isSpace (hd xs) \<Longrightarrow> trim xs \<noteq> []"
proof -
  assume ne: "xs \<noteq> []" and h: "\<not> isSpace (hd xs)"
  then have "dropWhile isSpace xs = xs" by (cases xs) auto
  moreover have "dropWhile isSpace (rev xs) \<noteq> []"
    using ne h by (auto simp: dropWhile_eq_Nil_conv intro: bexI [of _ "hd xs"])
  ultimately show ?thesis by (simp add: trim_def)
qed

lemma directive_value_nonempty:
  assumes "DIRECTIVE_RE (trim l) = Some (tag, raw)"
  shows "trim raw \<noteq> []"
proof -
  from assms obtain r0 r1 where t: "trim l = 35 # r0"
    and r1: "dropWhile isSpace r0 = 64 # r1"
    and ws: "takeWhile isSpace (dropWhile isWord r1) \<noteq> []"
    and raw: "raw = takeWhile isDot (dropWhile isSpace (dropWhile isWord r1))"
    by (auto simp: DIRECTIVE_RE_def split: list.splits if_splits)
  let ?r3 = "dropWhile isWord r1"
  let ?r4 = "dropWhile isSpace ?r3"
  have r3: "?r3 \<noteq> []"
    using ws by (metis takeWhile.simps(1))
  have decomp: "trim l = (35 # takeWhile isSpace r0 @ 64 # takeWhile isWord r1) @ ?r3"
    using t r1 takeWhile_dropWhile_id [of isSpace r0] takeWhile_dropWhile_id [of isWord r1]
    by (metis append_Cons append_assoc)
  have r4: "?r4 \<noteq> []"
  proof
    assume "?r4 = []"
    then have "\<forall>x\<in>set ?r3. isSpace x" by (simp add: dropWhile_eq_Nil_conv)
    with r3 have "isSpace (last ?r3)" by simp
    moreover have "last (trim l) = last ?r3"
      using decomp r3 by (metis last_appendR)
    ultimately show False using trim_last [of l] t by simp
  qed
  then have nsp: "\<not> isSpace (hd ?r4)" by (rule hd_dropWhile)
  then have "isDot (hd ?r4)" by (auto simp: isDot_def dest: line_terminator_is_space)
  with r4 have "raw \<noteq> []" "hd raw = hd ?r4"
    unfolding raw by (cases ?r4; simp)+
  with nsp show ?thesis by (intro trim_nonempty) simp_all
qed

lemma apply_directive_name:
  "name (apply_directive m tag v) = (if tag = js ''name'' then Some v else name m)"
  by (simp add: apply_directive_def js_def split: option.splits prod.splits)

lemma apply_directive_description:
  "description (apply_directive m tag v) =
     (if tag = js ''description'' then Some v else description m)"
  by (simp add: apply_directive_def js_def split: option.splits prod.splits)

lemma parse_lines_nonempty:
  "name m \<noteq> Some [] \<Longrightarrow> description m \<noteq> Some [] \<Longrightarrow>
   name (parse_lines m s ls) \<noteq> Some [] \<and> description (parse_lines m s ls) \<noteq> Some []"
proof (induction ls arbitrary: m s)
  case Nil
  then show ?case by simp
next
  case (Cons x xs)
  show ?case
  proof (cases "is_directive_line x")
    case True
    then obtain tag raw where m: "DIRECTIVE_RE (trim x) = Some (tag, raw)"
      by (auto simp: is_directive_line_def)
    let ?m' = "apply_directive m tag (trim raw)"
    have v: "trim raw \<noteq> []" using m by (rule directive_value_nonempty)
    have "name ?m' \<noteq> Some []" "description ?m' \<noteq> Some []"
      using Cons.prems v by (simp_all add: apply_directive_name apply_directive_description)
    then have "name (parse_lines ?m' True xs) \<noteq> Some [] \<and>
               description (parse_lines ?m' True xs) \<noteq> Some []"
      by (rule Cons.IH)
    then show ?thesis using m by (simp add: parse_lines_directive)
  next
    case False
    with Cons.IH [OF Cons.prems, of s] Cons.prems show ?thesis
      by (simp add: parse_lines_not_directive)
  qed
qed

lemma truthy_parsed:
  "truthy (name (parseScript c)) \<longleftrightarrow> name (parseScript c) \<noteq> None"
  "truthy (description (parseScript c)) \<longleftrightarrow> description (parseScript c) \<noteq> None"
  using parse_lines_nonempty [of initial_meta False "split_nl c"]
  by (auto simp: truthy_def parseScript_def initial_meta_def split: option.splits)


section \<open>Which lines are directives\<close>

text \<open>
  Claim C1, as the code has it. A line whose trimmed form is \<^verbatim>\<open>#\<close>, optional whitespace,
  \<^verbatim>\<open>@\<close>, a tag of one or more word characters, at least one whitespace character and a
  remainder is recognized as a directive: the loop applies the tag to the remainder (up to
  its first line terminator, trimmed) and sets \<^verbatim>\<open>seenDirective\<close>. A line that starts with
  \<^verbatim>\<open>//\<close> is not recognized: it is skipped while no directive has been seen, and ends
  the scan afterwards.
\<close>

theorem hash_directive_recognized:
  "(list_all isSpace ws0 \<and> tag \<noteq> [] \<and> list_all isWord tag \<and> ws \<noteq> [] \<and> list_all isSpace ws \<and>
    trim l = 35 # ws0 @ 64 # tag @ ws @ rest
      \<longrightarrow> is_directive_line l \<and>
          parse_lines m s (l # lines) =
            parse_lines (apply_directive m tag (trim (takeWhile isDot (dropWhile isSpace rest))))
              True lines) \<and>
   (trim l' = js ''//'' @ r
      \<longrightarrow> \<not> is_directive_line l' \<and>
          parse_lines m s (l' # lines) = (if s then m else parse_lines m s lines))"
proof (intro conjI impI)
  assume a: "list_all isSpace ws0 \<and> tag \<noteq> [] \<and> list_all isWord tag \<and> ws \<noteq> [] \<and>
             list_all isSpace ws \<and> trim l = 35 # ws0 @ 64 # tag @ ws @ rest"
  then have re: "DIRECTIVE_RE (trim l) = Some (tag, takeWhile isDot (dropWhile isSpace rest))"
    by (simp add: DIRECTIVE_RE_shape)
  then show "is_directive_line l" by (rule is_directive_lineI)
  from re show "parse_lines m s (l # lines) =
      parse_lines (apply_directive m tag (trim (takeWhile isDot (dropWhile isSpace rest))))
        True lines"
    by (rule parse_lines_directive)
next
  assume b: "trim l' = js ''//'' @ r"
  then have t: "terminates_scan l'" by (rule slashes_terminate)
  then show "\<not> is_directive_line l'" by (rule terminates_not_directive)
  with t show "parse_lines m s (l' # lines) = (if s then m else parse_lines m s lines)"
    by (simp add: parse_lines_not_directive)
qed

theorem hash_directive_recognized_witness:
  "parse_lines initial_meta False [js ''#  @name   x''] = initial_meta\<lparr>name := Some (js ''x'')\<rparr> \<and>
   \<not> is_directive_line (js ''// @name x'') \<and>
   parse_lines initial_meta True [js ''// @name x'', js ''# @name y''] = initial_meta"
  using hash_directive_recognized [where ?ws0.0 = "js ''  ''" and tag = "js ''name''" and ws = "js ''   ''"
      and rest = "js ''x''" and l = "js ''#  @name   x''" and l' = "js ''// @name x''"
      and r = "js '' @name x''" and m = initial_meta and s = True and lines = "[js ''# @name y'']"]
    hash_directive_recognized [where ?ws0.0 = "js ''  ''" and tag = "js ''name''" and ws = "js ''   ''"
      and rest = "js ''x''" and l = "js ''#  @name   x''" and l' = "js ''// @name x''"
      and r = "js '' @name x''" and m = initial_meta and s = False and lines = "[]"]
  by (simp add: ev)

text \<open>
  Claim C1 as stated fails: \<^verbatim>\<open>// @name x\<close> does not match \<^verbatim>\<open>DIRECTIVE_RE\<close> and sets no
  name, while \<^verbatim>\<open># @name x\<close> does.
\<close>

theorem slash_comment_not_recognized:
  "DIRECTIVE_RE (js ''// @name x'') = None \<and>
   DIRECTIVE_RE (js ''# @name x'') = Some (js ''name'', js ''x'') \<and>
   name (parseScript (js ''// @name x'')) = None \<and>
   name (parseScript (js ''# @name x'')) = Some (js ''x'')"
  by (simp add: ev parse_lines.simps(2))

section \<open>The arg grammar\<close>

lemma match_alt_arg_types:
  "ty \<in> set arg_types \<Longrightarrow> match_alt arg_types (ty @ r) = Some (ty, r)"
  by (auto simp: arg_types_def startsWith_def js_def)

lemma arg_type_not_space: "ty \<in> set arg_types \<Longrightarrow> \<not> isSpace (hd (ty @ r))"
  by (auto simp: arg_types_def js_def isSpace_def)

lemma ARG_modifier_default:
  assumes "ws \<noteq> []" and "list_all isSpace ws" and "v \<noteq> []" and "list_all isDot v"
  shows "ARG_modifier (ws @ 61 # v) = Some (Some (61 # v), Some (61 # v))"
proof -
  have a: "takeWhile isSpace (ws @ 61 # v) \<noteq> []"
    using assms(1,2) by (cases ws) auto
  have b: "dropWhile isSpace (ws @ 61 # v) = 61 # v"
    using assms(2) by (simp add: dropWhile_run isSpace_def)
  show ?thesis
    using assms(1,3,4) a b by (simp add: ARG_modifier_def js_def Let_def)
qed

lemma ARG_modifier_variadic:
  assumes "ws \<noteq> []" and "list_all isSpace ws"
  shows "ARG_modifier (ws @ js ''...'') = Some (Some (js ''...''), None)"
proof -
  have a: "takeWhile isSpace (ws @ js ''...'') \<noteq> []"
    using assms(1,2) by (cases ws) auto
  have b: "dropWhile isSpace (ws @ js ''...'') = js ''...''"
    using assms(2) by (simp add: dropWhile_run isSpace_def js_def)
  show ?thesis
    using assms(1) a b by (simp add: ARG_modifier_def Let_def js_def)
qed

lemma ARG_RE_shape:
  assumes "isWord c" and "list_all isWordDash cs"
    and "ws1 \<noteq> []" and "list_all isSpace ws1"
    and "ty \<in> set arg_types"
    and "ws2 \<noteq> []" and "list_all isSpace ws2"
    and "d \<noteq> []" and "list_all notQuote d"
    and "ARG_modifier r = Some (m4, m5)"
  shows "ARG_RE (c # cs @ ws1 @ ty @ ws2 @ 34 # d @ 34 # r) = Some (c # cs, ty, d, m4, m5)"
proof -
  let ?r1 = "ws1 @ ty @ ws2 @ 34 # d @ 34 # r"
  let ?r2 = "ws2 @ 34 # d @ 34 # r"
  have hd1: "\<not> isWordDash (hd ?r1)"
    using hd_run [OF assms(3,4)] by (simp add: space_not_wordDash)
  have a: "takeWhile isWordDash (cs @ ?r1) = cs"
    using assms(2) hd1 by (intro takeWhile_run) auto
  have b: "dropWhile isWordDash (cs @ ?r1) = ?r1"
    using assms(2) hd1 by (simp add: dropWhile_run dropWhile_stop)
  have c: "takeWhile isSpace ?r1 \<noteq> []"
    using assms(3,4) by (cases ws1) auto
  have d: "dropWhile isSpace ?r1 = ty @ ?r2"
    using assms(4) arg_type_not_space [OF assms(5)]
    by (simp add: dropWhile_run dropWhile_stop)
  have e: "match_alt arg_types (ty @ ?r2) = Some (ty, ?r2)"
    using assms(5) by (rule match_alt_arg_types)
  have f: "takeWhile isSpace ?r2 \<noteq> []"
    using assms(6,7) by (cases ws2) auto
  have g: "dropWhile isSpace ?r2 = 34 # d @ 34 # r"
    using assms(7) by (simp add: dropWhile_run isSpace_def)
  have h: "takeWhile notQuote (d @ 34 # r) = d"
    using assms(9) by (intro takeWhile_run) (auto simp: notQuote_def)
  have i: "dropWhile notQuote (d @ 34 # r) = 34 # r"
    using assms(9) by (simp add: dropWhile_run notQuote_def)
  show ?thesis
    using assms(1,8,10) a b c d e f g h i by (simp add: ARG_RE_def)
qed

lemma apply_directive_arg:
  "ARG_RE v = Some (m1, m2, m3, m4, m5) \<Longrightarrow>
   apply_directive m (js ''arg'') v = m\<lparr>args := args m @ [arg_object m1 m2 m3 m4 m5]\<rparr>"
  by (simp add: apply_directive_def js_def)

text \<open>
  Claim C4, as the code has it. The remainder of an \<^verbatim>\<open>@arg\<close> line is an identifier (a word
  character, then word characters and hyphens), whitespace, one of the three types,
  whitespace and a quoted description without quotes inside. With nothing after it, the
  object pushed has \<^verbatim>\<open>required = true\<close> and neither \<^verbatim>\<open>variadic\<close> nor \<^verbatim>\<open>default\<close>.
  Followed by whitespace and \<^verbatim>\<open>=v\<close>, where \<open>v\<close> is the non-empty rest of the line (spaces
  included), it has \<^verbatim>\<open>required = false\<close>, \<^verbatim>\<open>default = v\<close> and no key \<^verbatim>\<open>variadic\<close>.
  Followed by whitespace and \<^verbatim>\<open>...\<close>, it has \<^verbatim>\<open>required = false\<close>,
  \<^verbatim>\<open>variadic = true\<close> and no key \<^verbatim>\<open>default\<close>.
\<close>

theorem arg_modifier_fields:
  assumes "isWord c" and "list_all isWordDash cs"
    and "ws1 \<noteq> []" and "list_all isSpace ws1"
    and "ty \<in> set arg_types"
    and "ws2 \<noteq> []" and "list_all isSpace ws2"
    and "d \<noteq> []" and "list_all notQuote d"
    and "h = c # cs @ ws1 @ ty @ ws2 @ 34 # d @ [34]"
  shows "apply_directive m (js ''arg'') h =
           m\<lparr>args := args m @
             [JObj [(''name'', JStr (c # cs)), (''type'', JStr ty), (''description'', JStr d),
                    (''required'', JBool True)]]\<rparr> \<and>
         (ws3 \<noteq> [] \<and> list_all isSpace ws3 \<and> v \<noteq> [] \<and> list_all isDot v \<longrightarrow>
          apply_directive m (js ''arg'') (h @ ws3 @ 61 # v) =
           m\<lparr>args := args m @
             [JObj [(''name'', JStr (c # cs)), (''type'', JStr ty), (''description'', JStr d),
                    (''required'', JBool False), (''default'', JStr v)]]\<rparr>) \<and>
         (ws3 \<noteq> [] \<and> list_all isSpace ws3 \<longrightarrow>
          apply_directive m (js ''arg'') (h @ ws3 @ js ''...'') =
           m\<lparr>args := args m @
             [JObj [(''name'', JStr (c # cs)), (''type'', JStr ty), (''description'', JStr d),
                    (''required'', JBool False), (''variadic'', JBool True)]]\<rparr>)"
proof (intro conjI impI)
  have "ARG_RE (c # cs @ ws1 @ ty @ ws2 @ 34 # d @ 34 # []) = Some (c # cs, ty, d, None, None)"
    using assms(1-9) by (intro ARG_RE_shape) (simp_all add: ARG_modifier_def)
  then have "apply_directive m (js ''arg'') h =
      m\<lparr>args := args m @ [arg_object (c # cs) ty d None None]\<rparr>"
    unfolding assms(10) by (rule apply_directive_arg)
  then show "apply_directive m (js ''arg'') h =
           m\<lparr>args := args m @
             [JObj [(''name'', JStr (c # cs)), (''type'', JStr ty), (''description'', JStr d),
                    (''required'', JBool True)]]\<rparr>"
    by (simp add: arg_object_def truthy_def)
next
  assume w: "ws3 \<noteq> [] \<and> list_all isSpace ws3 \<and> v \<noteq> [] \<and> list_all isDot v"
  have "ARG_RE (c # cs @ ws1 @ ty @ ws2 @ 34 # d @ 34 # (ws3 @ 61 # v)) =
          Some (c # cs, ty, d, Some (61 # v), Some (61 # v))"
    using assms(1-9) w by (intro ARG_RE_shape) (simp_all add: ARG_modifier_default)
  then have "apply_directive m (js ''arg'') (h @ ws3 @ 61 # v) =
      m\<lparr>args := args m @ [arg_object (c # cs) ty d (Some (61 # v)) (Some (61 # v))]\<rparr>"
    unfolding assms(10) by (simp add: apply_directive_arg)
  moreover have "arg_object (c # cs) ty d (Some (61 # v)) (Some (61 # v)) =
      JObj [(''name'', JStr (c # cs)), (''type'', JStr ty), (''description'', JStr d),
            (''required'', JBool False), (''default'', JStr v)]"
    by (simp add: arg_object_def truthy_def js_def)
  ultimately show "apply_directive m (js ''arg'') (h @ ws3 @ 61 # v) =
           m\<lparr>args := args m @
             [JObj [(''name'', JStr (c # cs)), (''type'', JStr ty), (''description'', JStr d),
                    (''required'', JBool False), (''default'', JStr v)]]\<rparr>"
    by simp
next
  assume w: "ws3 \<noteq> [] \<and> list_all isSpace ws3"
  have "ARG_RE (c # cs @ ws1 @ ty @ ws2 @ 34 # d @ 34 # (ws3 @ js ''...'')) =
          Some (c # cs, ty, d, Some (js ''...''), None)"
    using assms(1-9) w by (intro ARG_RE_shape) (simp_all add: ARG_modifier_variadic)
  then have "apply_directive m (js ''arg'') (h @ ws3 @ js ''...'') =
      m\<lparr>args := args m @ [arg_object (c # cs) ty d (Some (js ''...'')) None]\<rparr>"
    unfolding assms(10) by (simp add: apply_directive_arg)
  moreover have "arg_object (c # cs) ty d (Some (js ''...'')) None =
      JObj [(''name'', JStr (c # cs)), (''type'', JStr ty), (''description'', JStr d),
            (''required'', JBool False), (''variadic'', JBool True)]"
    by (simp add: arg_object_def truthy_def) (simp add: js_def)
  ultimately show "apply_directive m (js ''arg'') (h @ ws3 @ js ''...'') =
           m\<lparr>args := args m @
             [JObj [(''name'', JStr (c # cs)), (''type'', JStr ty), (''description'', JStr d),
                    (''required'', JBool False), (''variadic'', JBool True)]]\<rparr>"
    by simp
qed

theorem arg_modifier_fields_witness:
  "isWord 99 \<and> list_all isWordDash (js ''ount'') \<and> list_all isSpace (js '' '') \<and>
   js ''number'' \<in> set arg_types \<and> list_all notQuote (js ''n items'') \<and>
   list_all isDot (js ''5 or 6'') \<and>
   args (apply_directive initial_meta (js ''arg'') (js ''count number \"n items\"'')) =
     [JObj [(''name'', JStr (js ''count'')), (''type'', JStr (js ''number'')),
            (''description'', JStr (js ''n items'')), (''required'', JBool True)]] \<and>
   args (apply_directive initial_meta (js ''arg'') (js ''count number \"n items\" =5 or 6'')) =
     [JObj [(''name'', JStr (js ''count'')), (''type'', JStr (js ''number'')),
            (''description'', JStr (js ''n items'')), (''required'', JBool False),
            (''default'', JStr (js ''5 or 6''))]] \<and>
   args (apply_directive initial_meta (js ''arg'') (js ''count number \"n items\" ...'')) =
     [JObj [(''name'', JStr (js ''count'')), (''type'', JStr (js ''number'')),
            (''description'', JStr (js ''n items'')), (''required'', JBool False),
            (''variadic'', JBool True)]]"
  using arg_modifier_fields [where c = 99 and cs = "js ''ount''" and ?ws1.0 = "js '' ''" and ty = "js ''number''"
      and ?ws2.0 = "js '' ''" and d = "js ''n items''" and h = "js ''count number \"n items\"''"
      and ?ws3.0 = "js '' ''" and v = "js ''5 or 6''" and m = initial_meta]
  by (simp add: js_def isWord_def isWordDash_def isSpace_def notQuote_def isDot_def
        isLineTerminator_def arg_types_def initial_meta_def)

text \<open>
  Claim C4 as stated fails in one field: for \<^verbatim>\<open>count number "n items" =5\<close> the object
  has no key \<^verbatim>\<open>variadic\<close> at all, so \<^verbatim>\<open>variadic\<close> is absent and not \<^verbatim>\<open>false\<close>.
\<close>

theorem arg_default_has_no_variadic_key:
  "args (parseScript (js ''# @arg count number \"n items\" =5'')) =
     [JObj [(''name'', JStr (js ''count'')), (''type'', JStr (js ''number'')),
            (''description'', JStr (js ''n items'')), (''required'', JBool False),
            (''default'', JStr (js ''5''))]] \<and>
   obj_get (hd (args (parseScript (js ''# @arg count number \"n items\" =5'')))) ''variadic''
     \<noteq> Some (JBool False)"
  by (simp add: ev parse_lines.simps(2))

section \<open>The output field\<close>

text \<open>
  Claim C5, as the code has it. The \<^verbatim>\<open>output\<close> field of a parsed record is \<^verbatim>\<open>text\<close>
  whenever no line of the input is an \<^verbatim>\<open>@output\<close> directive; in every case it is
  \<^verbatim>\<open>text\<close> or the trimmed remainder of one of the input's \<^verbatim>\<open>@output\<close> lines, which
  the parser stores unchecked.
\<close>

theorem output_text_or_declared:
  "((\<forall>l\<in>set (split_nl content). \<forall>raw. DIRECTIVE_RE (trim l) \<noteq> Some (js ''output'', raw))
      \<longrightarrow> output (parseScript content) = js ''text'') \<and>
   (output (parseScript content) = js ''text'' \<or>
    (\<exists>l\<in>set (split_nl content). \<exists>raw.
        DIRECTIVE_RE (trim l) = Some (js ''output'', raw) \<and>
        output (parseScript content) = trim raw))"
  using parse_lines_output [of initial_meta False "split_nl content"]
  by (auto simp: parseScript_def initial_meta_def)

theorem output_text_or_declared_witness:
  "map (\<lambda>l. map_option fst (DIRECTIVE_RE (trim l))) (split_nl (js ''# @name x\<newline># @description d''))
     = [Some (js ''name''), Some (js ''description'')] \<and>
   output (parseScript (js ''# @name x\<newline># @description d'')) = js ''text''"
  using output_text_or_declared [of "js ''# @name x\<newline># @description d''"]
  by (simp add: ev)

text \<open>
  Claim C5 as stated fails: \<^verbatim>\<open># @output xml\<close> gives the record the output \<^verbatim>\<open>xml\<close>,
  which is none of the five formats.
\<close>

theorem output_not_validated:
  "output (parseScript (js ''# @output xml'')) = js ''xml'' \<and> js ''xml'' \<notin> set output_formats"
  by (simp add: ev output_formats_def parse_lines.simps(2))

section \<open>Where the scan ends\<close>

text \<open>
  A line that is no directive and is blank or starts with \<^verbatim>\<open>#\<close> never ends the scan,
  whatever the flag: the loop goes on with the next line, record and flag unchanged.
\<close>

lemma parse_lines_comments_skipped:
  "\<forall>x\<in>set mid. \<not> is_directive_line x \<and> (trim x = [] \<or> startsWith (trim x) (js ''#'')) \<Longrightarrow>
   parse_lines m s (mid @ later) = parse_lines m s later"
proof (induction mid)
  case Nil
  then show ?case by simp
next
  case (Cons x xs)
  then have "\<not> is_directive_line x" and "\<not> terminates_scan x"
    by (auto simp: terminates_scan_def)
  then have "parse_lines m s (x # xs @ later) = parse_lines m s (xs @ later)"
    by (simp add: parse_lines_not_directive)
  with Cons show ?case by simp
qed

text \<open>
  Claim C6, as the code has it. A comment is a line whose trimmed form starts with
  \<^verbatim>\<open>#\<close>; a line that starts with \<^verbatim>\<open>//\<close> is none. Once a directive line has been
  recognized, the lines that are no directives and are blank or comments are skipped,
  record and flag unchanged, and the first later line that does not match the directive
  pattern and is neither blank nor a comment ends the scan: the record is the one of the
  lines before it, whatever follows. A \<^verbatim>\<open>//\<close> line is such a line. Lines at the start
  of the input none of which is a directive (blank lines, the shebang, prose, code) are
  skipped: the record is the one of the remaining lines.
\<close>

theorem scan_termination:
  "(split_nl content = pre @ l # post \<and> (\<exists>d\<in>set pre. is_directive_line d) \<and> terminates_scan l
      \<longrightarrow> parseScript content = parse_lines initial_meta False pre) \<and>
   (split_nl content = skipped @ rest \<and> (\<forall>x\<in>set skipped. \<not> is_directive_line x)
      \<longrightarrow> parseScript content = parse_lines initial_meta False rest) \<and>
   ((\<forall>x\<in>set mid. \<not> is_directive_line x \<and> (trim x = [] \<or> startsWith (trim x) (js ''#'')))
      \<longrightarrow> parse_lines m s (mid @ later) = parse_lines m s later) \<and>
   (terminates_scan t \<longleftrightarrow>
      \<not> is_directive_line t \<and> trim t \<noteq> [] \<and> \<not> startsWith (trim t) (js ''#'')) \<and>
   (trim c = js ''//'' @ r \<longrightarrow> terminates_scan c \<and> parse_lines m True (c # later) = m)"
proof (intro conjI impI)
  assume "split_nl content = pre @ l # post \<and> (\<exists>d\<in>set pre. is_directive_line d) \<and>
          terminates_scan l"
  then have lines: "split_nl content = pre @ l # post"
    and seen: "\<exists>d\<in>set pre. is_directive_line d" and stop: "terminates_scan l"
    by simp_all
  have "parse_lines initial_meta False (pre @ l # post) = parse_lines initial_meta False pre"
    using seen stop by (intro parse_lines_terminated) simp
  with lines show "parseScript content = parse_lines initial_meta False pre"
    by (simp add: parseScript_def)
next
  assume "split_nl content = skipped @ rest \<and> (\<forall>x\<in>set skipped. \<not> is_directive_line x)"
  then have lines: "split_nl content = skipped @ rest"
    and none: "\<forall>x\<in>set skipped. \<not> is_directive_line x"
    by simp_all
  from none have "parse_lines initial_meta False (skipped @ rest) =
      parse_lines initial_meta False rest"
    by (rule parse_lines_skipped)
  with lines show "parseScript content = parse_lines initial_meta False rest"
    by (simp add: parseScript_def)
next
  assume "\<forall>x\<in>set mid. \<not> is_directive_line x \<and> (trim x = [] \<or> startsWith (trim x) (js ''#''))"
  then show "parse_lines m s (mid @ later) = parse_lines m s later"
    by (rule parse_lines_comments_skipped)
next
  have shebang: "startsWith (trim t) (js ''#!'') \<Longrightarrow> startsWith (trim t) (js ''#'')"
    by (cases "trim t") (auto simp: startsWith_def js_def)
  show "terminates_scan t \<longleftrightarrow>
      \<not> is_directive_line t \<and> trim t \<noteq> [] \<and> \<not> startsWith (trim t) (js ''#'')"
  proof (cases "DIRECTIVE_RE (trim t)")
    case None
    with shebang show ?thesis
      by (auto simp: terminates_scan_def is_directive_line_def)
  next
    case (Some a)
    then have "is_directive_line t" by (rule is_directive_lineI)
    with Some show ?thesis by (simp add: terminates_scan_def)
  qed
next
  assume "trim c = js ''//'' @ r"
  then show "terminates_scan c" by (rule slashes_terminate)
  then show "parse_lines m True (c # later) = m"
    by (simp add: parse_lines_not_directive terminates_not_directive)
qed

theorem scan_termination_witness:
  "split_nl (js ''# @name x\<newline>set -e\<newline># @name y'') =
     [js ''# @name x''] @ js ''set -e'' # [js ''# @name y''] \<and>
   is_directive_line (js ''# @name x'') \<and> terminates_scan (js ''set -e'') \<and>
   name (parseScript (js ''# @name x\<newline>set -e\<newline># @name y'')) = Some (js ''x'') \<and>
   split_nl (js ''#!/bin/sh\<newline>\<newline>set -e\<newline># @name y'') =
     [js ''#!/bin/sh'', [], js ''set -e''] @ [js ''# @name y''] \<and>
   list_all (\<lambda>x. \<not> is_directive_line x) [js ''#!/bin/sh'', [], js ''set -e''] \<and>
   name (parseScript (js ''#!/bin/sh\<newline>\<newline>set -e\<newline># @name y'')) = Some (js ''y'') \<and>
   list_all (\<lambda>x. \<not> is_directive_line x \<and> (trim x = [] \<or> startsWith (trim x) (js ''#'')))
     [[], js ''# a note'', js ''   ''] \<and>
   parse_lines (initial_meta\<lparr>name := Some (js ''x'')\<rparr>) True
     ([[], js ''# a note'', js ''   ''] @ [js ''# @description d'', js ''echo hi'', js ''# @name y''])
     = initial_meta\<lparr>name := Some (js ''x''), description := Some (js ''d'')\<rparr> \<and>
   parseScript (js ''# @name x\<newline>\<newline># a note\<newline>   \<newline># @description d\<newline>echo hi\<newline># @name y'')
     = initial_meta\<lparr>name := Some (js ''x''), description := Some (js ''d'')\<rparr> \<and>
   terminates_scan (js ''// a note'') \<and>
   parse_lines (initial_meta\<lparr>name := Some (js ''x'')\<rparr>) True
     [js ''// a note'', js ''# @description d''] = initial_meta\<lparr>name := Some (js ''x'')\<rparr>"
  using scan_termination [where content = "js ''# @name x\<newline>set -e\<newline># @name y''" and pre = "[js ''# @name x'']"
      and l = "js ''set -e''" and post = "[js ''# @name y'']" and skipped = "[]"
      and rest = "[js ''# @name x'', js ''set -e'', js ''# @name y'']"
      and mid = "[[], js ''# a note'', js ''   '']"
      and later = "[js ''# @description d'', js ''echo hi'', js ''# @name y'']"
      and m = "initial_meta\<lparr>name := Some (js ''x'')\<rparr>" and s = True
      and t = "js ''set -e''" and c = "js ''// a note''" and r = "js '' a note''"]
    scan_termination [where content = "js ''#!/bin/sh\<newline>\<newline>set -e\<newline># @name y''" and pre = "[]"
      and l = "js ''#!/bin/sh''" and post = "[[], js ''set -e'', js ''# @name y'']"
      and skipped = "[js ''#!/bin/sh'', [], js ''set -e'']"
      and rest = "[js ''# @name y'']" and mid = "[]" and later = "[js ''# @description d'']"
      and m = "initial_meta\<lparr>name := Some (js ''x'')\<rparr>" and s = True
      and t = "js ''// a note''" and c = "js ''// a note''" and r = "js '' a note''"]
  by (simp add: ev parse_lines.simps(2))

text \<open>
  Claim C6 as stated fails where the comment is a \<^verbatim>\<open>//\<close> line, which the specification
  counts as a comment: after \<^verbatim>\<open># @name x\<close> the line \<^verbatim>\<open>// a note\<close> ends the scan and the
  \<^verbatim>\<open>@description\<close> below it is lost, while the line \<^verbatim>\<open># a note\<close> in its place is skipped.
\<close>

theorem slash_comment_ends_scan:
  "description (parseScript (js ''# @name x\<newline>// a note\<newline># @description d'')) = None \<and>
   description (parseScript (js ''# @name x\<newline># a note\<newline># @description d'')) = Some (js ''d'')"
  by (simp add: ev parse_lines.simps(2))

section \<open>Malformed arg lines\<close>

text \<open>
  Claim C8. An \<^verbatim>\<open>@arg\<close> directive whose remainder does not match \<^verbatim>\<open>ARG_RE\<close> leaves
  the record as it is (nothing is appended to \<^verbatim>\<open>args\<close>), and the loop goes on with the
  next line, the line counting as a directive. After an earlier directive the record of
  the whole input is the one of the input without the line, and so are the warnings that
  the builder derives from the record.
\<close>

theorem malformed_arg_dropped:
  assumes "DIRECTIVE_RE (trim l) = Some (js ''arg'', raw)" and "ARG_RE (trim raw) = None"
  shows "apply_directive m (js ''arg'') (trim raw) = m \<and>
         parse_lines m s (l # lines) = parse_lines m True lines \<and>
         (split_nl content = pre @ l # lines \<and> split_nl content' = pre @ lines \<and>
          (\<exists>d\<in>set pre. is_directive_line d) \<longrightarrow>
            parseScript content = parseScript content' \<and>
            spec_warnings relativePath (parseScript content) =
              spec_warnings relativePath (parseScript content'))"
proof -
  have inert: "apply_directive m' (js ''arg'') (trim raw) = m'" for m'
    using assms(2) by (simp add: apply_directive_def js_def)
  have step: "parse_lines m s (l # lines) = parse_lines m True lines"
    using assms(1) inert by (simp add: parse_lines_directive)
  have "parseScript content = parseScript content'"
    if "split_nl content = pre @ l # lines" and "split_nl content' = pre @ lines"
      and "\<exists>d\<in>set pre. is_directive_line d"
  proof -
    have "parse_lines initial_meta False (pre @ l # lines) =
          parse_lines initial_meta False (pre @ lines)"
      using that(3) by (intro parse_lines_inert [OF assms(1) inert]) simp
    then show ?thesis
      using that(1,2) by (simp add: parseScript_def)
  qed
  then show ?thesis using inert step by simp
qed

theorem malformed_arg_dropped_witness:
  "DIRECTIVE_RE (trim (js ''# @arg count integer \"n\"'')) = Some (js ''arg'', js ''count integer \"n\"'') \<and>
   ARG_RE (trim (js ''count integer \"n\"'')) = None \<and>
   split_nl (js ''# @name x\<newline># @arg count integer \"n\"\<newline># @dep jq'') =
     [js ''# @name x''] @ js ''# @arg count integer \"n\"'' # [js ''# @dep jq''] \<and>
   split_nl (js ''# @name x\<newline># @dep jq'') = [js ''# @name x''] @ [js ''# @dep jq''] \<and>
   is_directive_line (js ''# @name x'') \<and>
   parseScript (js ''# @name x\<newline># @arg count integer \"n\"\<newline># @dep jq'') =
     parseScript (js ''# @name x\<newline># @dep jq'') \<and>
   parseScript (js ''# @name x\<newline># @dep jq'') =
     initial_meta\<lparr>name := Some (js ''x''), deps := [js ''jq'']\<rparr>"
  using malformed_arg_dropped [where l = "js ''# @arg count integer \"n\"''"
     and raw = "js ''count integer \"n\"''" and pre = "[js ''# @name x'']"
     and lines = "[js ''# @dep jq'']" and m = initial_meta and s = False
     and content = "js ''# @name x\<newline># @arg count integer \"n\"\<newline># @dep jq''"
     and content' = "js ''# @name x\<newline># @dep jq''" and relativePath = "[]"]
  by (simp add: ev parse_lines.simps(2))

section \<open>Unknown tags\<close>

text \<open>
  Claim C10. A line that matches the directive pattern with a tag that is none of the
  recognized ones leaves every field of the record unchanged and still sets
  \<^verbatim>\<open>seenDirective\<close>: after it, and after any lines that are not directives, the next
  line that is neither a match, blank nor a comment ends the scan with the record unchanged.
\<close>

theorem unknown_tag_counts_as_directive:
  assumes "DIRECTIVE_RE (trim l) = Some (tag, raw)" and "tag \<notin> set recognized_tags"
    and "\<forall>x\<in>set mid. \<not> is_directive_line x" and "terminates_scan t"
  shows "apply_directive m tag (trim raw) = m \<and>
         parse_lines m s (l # lines) = parse_lines m True lines \<and>
         parse_lines m s (l # mid @ t # post) = m"
proof -
  have inert: "apply_directive m tag (trim raw) = m"
    using assms(2) by (rule apply_directive_unknown)
  have step: "parse_lines m s (l # ls) = parse_lines m True ls" for ls
    using assms(1) inert by (simp add: parse_lines_directive)
  have "parse_lines m True (mid @ t # post) = parse_lines m True mid"
    using assms(4) by (simp add: parse_lines_terminated)
  also have "\<dots> = m"
    using assms(3) by (rule parse_lines_no_directive)
  finally show ?thesis using inert step by simp
qed

theorem unknown_tag_counts_as_directive_witness:
  "DIRECTIVE_RE (trim (js ''# @flag verbose v'')) = Some (js ''flag'', js ''verbose v'') \<and>
   js ''flag'' \<notin> set recognized_tags \<and>
   list_all (\<lambda>x. \<not> is_directive_line x) [js ''# note'', []] \<and>
   terminates_scan (js ''echo hi'') \<and>
   parse_lines initial_meta False
     (js ''# @flag verbose v'' # [js ''# note'', []] @ js ''echo hi'' # [js ''# @name x''])
     = initial_meta \<and>
   parse_lines initial_meta False
     ([js ''# note'', []] @ js ''echo hi'' # [js ''# @name x''])
     = initial_meta\<lparr>name := Some (js ''x'')\<rparr>"
  using unknown_tag_counts_as_directive [where l = "js ''# @flag verbose v''" and tag = "js ''flag''" and raw = "js ''verbose v''"
     and mid = "[js ''# note'', []]" and t = "js ''echo hi''" and post = "[js ''# @name x'']"
     and m = initial_meta and s = False]
  by (simp add: ev parse_lines.simps(2))

section \<open>Paths and the walk\<close>

lemma path_relative_below: "path_relative base (base @ q) = q"
  by (induction base) auto

lemma path_relative_repoRoot:
  "path_relative (repoRoot dirname) (SCRIPTS_DIR dirname @ p) = js ''scripts'' # p"
  using path_relative_below [of "butlast dirname" "js ''scripts'' # p"]
  by (simp add: repoRoot_def SCRIPTS_DIR_def)

lemma below_deeper: "below (dir @ [nm]) base en \<Longrightarrow> below dir base en"
proof -
  assume "below (dir @ [nm]) base en"
  then obtain p where "p \<noteq> []" "eligible (last p)" "fst en = (dir @ [nm]) @ p"
    "snd en = path_str (path_relative base ((dir @ [nm]) @ p))"
    unfolding below_def by blast
  then show ?thesis
    unfolding below_def by (intro exI [of _ "nm # p"]) simp
qed

lemma below_here:
  "eligible nm \<Longrightarrow> below dir base (dir @ [nm], path_str (path_relative base (dir @ [nm])))"
  unfolding below_def by (intro exI [of _ "[nm]"]) simp

lemma walk_paths:
  shows "walkDir node dir base = Inr es \<Longrightarrow> \<forall>en\<in>set es. below dir base en"
    and "walk_entries ns dir base = Inr es' \<Longrightarrow> \<forall>en\<in>set es'. below dir base en"
proof (induction node dir base and ns dir base arbitrary: es and es'
    rule: walkDir_walk_entries.induct)
  case (1 dir base)
  then show ?case by simp
next
  case (2 dir base)
  then show ?case by simp
next
  case (3 es0 dir base)
  then show ?case by simp
next
  case (4 dir base)
  then show ?case by simp
next
  case (5 nm node es0 dir base)
  show ?case
  proof (cases "isDirectory node")
    case True
    with "5.prems" obtain sub found where sub: "walkDir node (dir @ [nm]) base = Inr sub"
      and found: "walk_entries es0 dir base = Inr found" and es': "es' = sub @ found"
      by (auto split: sum.splits)
    have "\<forall>en\<in>set sub. below dir base en"
      using "5.IH"(1) [OF True sub] by (auto intro: below_deeper)
    moreover have "\<forall>en\<in>set found. below dir base en"
      using "5.IH"(2) [OF True sub found] .
    ultimately show ?thesis using es' by auto
  next
    case False
    show ?thesis
    proof (cases "eligible nm")
      case True
      with False "5.prems" obtain found where found: "walk_entries es0 dir base = Inr found"
        and es': "es' = (dir @ [nm], path_str (path_relative base (dir @ [nm]))) # found"
        by (auto split: sum.splits)
      have "\<forall>en\<in>set found. below dir base en"
        using "5.IH"(3) [OF False True found] .
      then show ?thesis using es' True by (auto intro: below_here)
    next
      case ne: False
      with False "5.prems" have "walk_entries es0 dir base = Inr es'" by simp
      then show ?thesis using "5.IH"(4) [OF False ne] by blast
    qed
  qed
qed

section \<open>The loop of the builder\<close>

lemma build_loop_step:
  "readFileSync fullPath = Some content \<Longrightarrow>
   build_loop readFileSync sc er ((fullPath, relativePath) # entries) =
     build_loop readFileSync
       (if accepted (parseScript content)
        then assign_property sc (property_key (name (parseScript content)))
               (script_entry (parseScript content) relativePath)
        else sc)
       (er @ spec_warnings relativePath (parseScript content)) entries"
  by (simp add: accepted_def spec_warnings_def truthy_parsed)

lemma build_loop_unread:
  "readFileSync fullPath = None \<Longrightarrow>
   build_loop readFileSync sc er ((fullPath, relativePath) # entries) = Inl (ReadFileFailed fullPath)"
  by simp

declare build_loop.simps(2) [simp del]

lemma build_loop_errors:
  "build_loop rd sc er es = Inr (sc', er') \<Longrightarrow> er' = er @ concat (map (entry_warnings rd) es)"
proof (induction es arbitrary: sc er)
  case Nil
  then show ?case by simp
next
  case (Cons en es)
  obtain full rel where en: "en = (full, rel)" by (cases en)
  show ?case
  proof (cases "rd full")
    case None
    with Cons.prems en show ?thesis by (simp add: build_loop_unread)
  next
    case (Some c)
    have "build_loop rd
            (if accepted (parseScript c)
             then assign_property sc (property_key (name (parseScript c)))
                    (script_entry (parseScript c) rel)
             else sc)
            (er @ spec_warnings rel (parseScript c)) es = Inr (sc', er')"
      using Cons.prems en Some by (simp add: build_loop_step)
    then have "er' = (er @ spec_warnings rel (parseScript c)) @ concat (map (entry_warnings rd) es)"
      by (rule Cons.IH)
    moreover have "entry_warnings rd en = spec_warnings rel (parseScript c)"
      using en Some by (simp add: entry_warnings_def)
    ultimately show ?thesis by simp
  qed
qed

lemma build_loop_stored:
  "build_loop rd sc er es = Inr (sc', er') \<Longrightarrow> sc' k = Some e \<Longrightarrow>
   sc k = Some e \<or> (\<exists>en\<in>set es. stored_by rd en k e)"
proof (induction es arbitrary: sc er)
  case Nil
  then show ?case by simp
next
  case (Cons en es)
  obtain full rel where en: "en = (full, rel)" by (cases en)
  show ?case
  proof (cases "rd full")
    case None
    with Cons.prems en show ?thesis by (simp add: build_loop_unread)
  next
    case (Some c)
    let ?sc1 = "if accepted (parseScript c)
        then assign_property sc (property_key (name (parseScript c)))
               (script_entry (parseScript c) rel)
        else sc"
    have "build_loop rd ?sc1 (er @ spec_warnings rel (parseScript c)) es = Inr (sc', er')"
      using Cons.prems(1) en Some by (simp add: build_loop_step)
    from Cons.IH [OF this Cons.prems(2)]
    have "?sc1 k = Some e \<or> (\<exists>en\<in>set es. stored_by rd en k e)" .
    then show ?thesis
    proof
      assume "?sc1 k = Some e"
      then have "sc k = Some e \<or> stored_by rd en k e"
        using en Some by (auto simp: stored_by_def assign_property_def split: if_splits)
      then show ?thesis by auto
    next
      assume "\<exists>en\<in>set es. stored_by rd en k e"
      then show ?thesis by auto
    qed
  qed
qed

lemma build_loop_kept:
  "build_loop rd sc er es = Inr (sc', er') \<Longrightarrow>
   \<forall>en\<in>set es. \<forall>e. \<not> stored_by rd en k e \<Longrightarrow> sc' k = sc k"
proof (induction es arbitrary: sc er)
  case Nil
  then show ?case by simp
next
  case (Cons en es)
  obtain full rel where en: "en = (full, rel)" by (cases en)
  show ?case
  proof (cases "rd full")
    case None
    with Cons.prems en show ?thesis by (simp add: build_loop_unread)
  next
    case (Some c)
    let ?sc1 = "if accepted (parseScript c)
        then assign_property sc (property_key (name (parseScript c)))
               (script_entry (parseScript c) rel)
        else sc"
    have "build_loop rd ?sc1 (er @ spec_warnings rel (parseScript c)) es = Inr (sc', er')"
      using Cons.prems(1) en Some by (simp add: build_loop_step)
    then have "sc' k = ?sc1 k"
      using Cons.prems(2) by (intro Cons.IH) auto
    moreover have "?sc1 k = sc k"
      using Cons.prems(2) en Some
      by (auto simp: stored_by_def assign_property_def)
    ultimately show ?thesis by simp
  qed
qed

lemma build_loop_proto:
  "build_loop rd sc er es = Inr (sc', er') \<Longrightarrow> sc' (js ''__proto__'') = sc (js ''__proto__'')"
proof (induction es arbitrary: sc er)
  case Nil
  then show ?case by simp
next
  case (Cons en es)
  obtain full rel where en: "en = (full, rel)" by (cases en)
  show ?case
  proof (cases "rd full")
    case None
    with Cons.prems en show ?thesis by (simp add: build_loop_unread)
  next
    case (Some c)
    with Cons.prems en Cons.IH show ?thesis
      by (auto simp: build_loop_step assign_property_def split: if_splits)
  qed
qed

lemma build_loop_append:
  "build_loop rd sc er (xs @ ys) =
     (case build_loop rd sc er xs of
        Inl e \<Rightarrow> Inl e
      | Inr (sc1, er1) \<Rightarrow> build_loop rd sc1 er1 ys)"
proof (induction xs arbitrary: sc er)
  case Nil
  then show ?case by simp
next
  case (Cons en xs)
  obtain full rel where en: "en = (full, rel)" by (cases en)
  show ?case
  proof (cases "rd full")
    case None
    with en show ?thesis by (simp add: build_loop_unread)
  next
    case (Some c)
    with en Cons.IH show ?thesis by (simp add: build_loop_step)
  qed
qed

text \<open>The last accepted file of a name holds the entry, unless the name is \<^verbatim>\<open>__proto__\<close>.\<close>

lemma build_loop_last_wins:
  assumes "build_loop rd sc er (pre @ en # post) = Inr (sc', er')"
    and "stored_by rd en k e" and "k \<noteq> js ''__proto__''"
    and "\<forall>x\<in>set post. \<forall>e'. \<not> stored_by rd x k e'"
  shows "sc' k = Some e"
proof -
  obtain full rel where en: "en = (full, rel)" by (cases en)
  from assms(2) en obtain c where c: "rd full = Some c" and acc: "accepted (parseScript c)"
    and k: "k = property_key (name (parseScript c))" and e: "e = script_entry (parseScript c) rel"
    by (auto simp: stored_by_def split: option.splits)
  from assms(1) obtain sc1 er1 where pre: "build_loop rd sc er pre = Inr (sc1, er1)"
    and rest: "build_loop rd sc1 er1 (en # post) = Inr (sc', er')"
    by (auto simp: build_loop_append split: sum.splits)
  from rest en c acc k e have
    "build_loop rd (assign_property sc1 k e) (er1 @ spec_warnings rel (parseScript c)) post
       = Inr (sc', er')"
    by (simp add: build_loop_step)
  from build_loop_kept [OF this assms(4)] assms(3) show ?thesis
    by (simp add: assign_property_def)
qed

lemma build_loop_grows:
  "build_loop rd sc er es = Inr (sc', er') \<Longrightarrow> sc k \<noteq> None \<Longrightarrow> sc' k \<noteq> None"
proof (induction es arbitrary: sc er)
  case Nil
  then show ?case by simp
next
  case (Cons en es)
  obtain full rel where en: "en = (full, rel)" by (cases en)
  show ?case
  proof (cases "rd full")
    case None
    with Cons.prems en show ?thesis by (simp add: build_loop_unread)
  next
    case (Some c)
    let ?sc1 = "if accepted (parseScript c)
        then assign_property sc (property_key (name (parseScript c)))
               (script_entry (parseScript c) rel)
        else sc"
    have run: "build_loop rd ?sc1 (er @ spec_warnings rel (parseScript c)) es = Inr (sc', er')"
      using Cons.prems(1) en Some by (simp add: build_loop_step)
    have "?sc1 k \<noteq> None"
      using Cons.prems(2) by (simp add: assign_property_def)
    with run show ?thesis by (rule Cons.IH)
  qed
qed

lemma build_loop_present:
  assumes "build_loop rd sc er es = Inr (sc', er')" and "en \<in> set es"
    and "stored_by rd en k e" and "k \<noteq> js ''__proto__''"
  shows "sc' k \<noteq> None"
proof -
  from assms(2) obtain pre post where es: "es = pre @ en # post"
    by (auto simp: in_set_conv_decomp)
  obtain full rel where en: "en = (full, rel)" by (cases en)
  from assms(3) en obtain c where c: "rd full = Some c" and acc: "accepted (parseScript c)"
    and k: "k = property_key (name (parseScript c))" and e: "e = script_entry (parseScript c) rel"
    by (auto simp: stored_by_def split: option.splits)
  from assms(1) es obtain sc1 er1 where
    rest: "build_loop rd sc1 er1 (en # post) = Inr (sc', er')"
    by (auto simp: build_loop_append split: sum.splits)
  from rest en c acc k e have
    "build_loop rd (assign_property sc1 k e) (er1 @ spec_warnings rel (parseScript c)) post
       = Inr (sc', er')"
    by (simp add: build_loop_step)
  moreover have "assign_property sc1 k e k \<noteq> None"
    using assms(4) by (simp add: assign_property_def)
  ultimately show ?thesis by (rule build_loop_grows)
qed

lemma buildManifest_Inr:
  assumes "buildManifest dirname tree rd now = Inr (mf, errors)"
  obtains entries where "walkDir tree (SCRIPTS_DIR dirname) (repoRoot dirname) = Inr entries"
    and "build_loop rd Map.empty [] entries = Inr (scripts mf, errors)"
  using assms by (auto simp: buildManifest_def split: sum.splits)

lemma script_entry_path: "obj_get (script_entry m rel) ''path'' = Some (JStr rel)"
  by (simp add: script_entry_def obj_get_def)

lemma script_entry_keys: "obj_keys (script_entry m rel) = entry_fields"
  by (simp add: script_entry_def obj_keys_def entry_fields_def)

lemma script_entry_stdin: "script_entry (m\<lparr>stdin := b\<rparr>) rel = script_entry m rel"
  by (simp add: script_entry_def)

lemma built_entry:
  assumes "buildManifest dirname tree rd now = Inr (mf, errors)" and "scripts mf k = Some e"
  shows "\<exists>p c. p \<noteq> [] \<and> eligible (last p) \<and> rd (SCRIPTS_DIR dirname @ p) = Some c \<and>
           accepted (parseScript c) \<and> k = property_key (name (parseScript c)) \<and>
           e = script_entry (parseScript c) (path_str (js ''scripts'' # p))"
proof -
  from assms(1) obtain entries where
    walk: "walkDir tree (SCRIPTS_DIR dirname) (repoRoot dirname) = Inr entries"
    and loop: "build_loop rd Map.empty [] entries = Inr (scripts mf, errors)"
    by (rule buildManifest_Inr)
  from build_loop_stored [OF loop assms(2)] obtain en where
    en: "en \<in> set entries" and st: "stored_by rd en k e"
    by auto
  from walk_paths(1) [OF walk] en have "below (SCRIPTS_DIR dirname) (repoRoot dirname) en"
    by blast
  then obtain p where p: "p \<noteq> []" "eligible (last p)" "fst en = SCRIPTS_DIR dirname @ p"
    "snd en = path_str (path_relative (repoRoot dirname) (SCRIPTS_DIR dirname @ p))"
    unfolding below_def by blast
  from st p(3) obtain c where "rd (SCRIPTS_DIR dirname @ p) = Some c" "accepted (parseScript c)"
    "k = property_key (name (parseScript c))" "e = script_entry (parseScript c) (snd en)"
    by (auto simp: stored_by_def split: option.splits)
  with p show ?thesis
    by (auto simp: path_relative_repoRoot)
qed

text \<open>Runs of the builder on the sample directories.\<close>

lemmas run = ev parse_lines.simps(2) build_loop.simps(2) buildManifest_def SCRIPTS_DIR_def
  repoRoot_def eligible_def script_entry_def assign_property_def property_key_def
  built_scripts_def built_errors_def built_field_def tools_dir_def

lemma one_script_run:
  "buildManifest tools_dir one_script_tree one_script_files now =
     Inr (\<lparr> format_version = 1, updated = now,
            scripts = [js ''foo'' \<mapsto> script_entry
               (initial_meta\<lparr>name := Some (js ''foo''), description := Some (js ''d''), stdin := True\<rparr>)
               (js ''scripts/web/foo.sh'')] \<rparr>, [])"
  by (simp add: run one_script_tree_def one_script_files_def)

lemma mixed_run:
  "buildManifest tools_dir mixed_tree mixed_files now =
     Inr (\<lparr> format_version = 1, updated = now,
            scripts = [js ''c'' \<mapsto> script_entry
               (initial_meta\<lparr>name := Some (js ''c''), description := Some (js ''d'')\<rparr>)
               (js ''scripts/sub/c.sh'')] \<rparr>,
          [js ''scripts/a.sh: missing @name'', js ''scripts/b.sh: missing @description'',
           js ''scripts/d.sh: missing @name''])"
  by (simp add: run mixed_tree_def mixed_files_def)

section \<open>The path of an entry\<close>

text \<open>
  Claim C2, as the code has it. Every entry of the scripts mapping comes from an eligible
  file at some location \<open>p\<close> below the scanned directory \<^verbatim>\<open>SCRIPTS_DIR\<close>, and its
  \<^verbatim>\<open>path\<close> field is that file's path relative to the repository root, the parent of the
  scanned directory, which \<^verbatim>\<open>buildManifest\<close> passes to \<^verbatim>\<open>walkDir\<close> as \<^verbatim>\<open>base\<close>:
  the location below the scanned directory with \<^verbatim>\<open>scripts/\<close> in front.
\<close>

theorem manifest_path_relative_to_repo_root:
  assumes "buildManifest dirname tree rd now = Inr (mf, errors)" and "scripts mf k = Some e"
  shows "\<exists>p c. p \<noteq> [] \<and> eligible (last p) \<and> rd (SCRIPTS_DIR dirname @ p) = Some c \<and>
           e = script_entry (parseScript c) (path_str (js ''scripts'' # p)) \<and>
           obj_get e ''path'' =
             Some (JStr (path_str (path_relative (repoRoot dirname) (SCRIPTS_DIR dirname @ p)))) \<and>
           path_relative (repoRoot dirname) (SCRIPTS_DIR dirname @ p) = js ''scripts'' # p"
proof -
  from built_entry [OF assms] obtain p c where
    "p \<noteq> []" "eligible (last p)" "rd (SCRIPTS_DIR dirname @ p) = Some c"
    "e = script_entry (parseScript c) (path_str (js ''scripts'' # p))"
    by blast
  then show ?thesis
    by (intro exI [of _ p] exI [of _ c]) (simp add: script_entry_path path_relative_repoRoot)
qed

theorem manifest_path_relative_to_repo_root_witness:
  "buildManifest tools_dir one_script_tree one_script_files [] =
     Inr (\<lparr> format_version = 1, updated = [],
            scripts = [js ''foo'' \<mapsto> script_entry
               (initial_meta\<lparr>name := Some (js ''foo''), description := Some (js ''d''), stdin := True\<rparr>)
               (js ''scripts/web/foo.sh'')] \<rparr>, []) \<and>
   (\<exists>p c. p \<noteq> [] \<and> eligible (last p) \<and> one_script_files (SCRIPTS_DIR tools_dir @ p) = Some c \<and>
     script_entry
       (initial_meta\<lparr>name := Some (js ''foo''), description := Some (js ''d''), stdin := True\<rparr>)
       (js ''scripts/web/foo.sh'') =
     script_entry (parseScript c) (path_str (js ''scripts'' # p)) \<and>
     obj_get (script_entry
       (initial_meta\<lparr>name := Some (js ''foo''), description := Some (js ''d''), stdin := True\<rparr>)
       (js ''scripts/web/foo.sh'')) ''path'' =
       Some (JStr (path_str (path_relative (repoRoot tools_dir) (SCRIPTS_DIR tools_dir @ p)))) \<and>
     path_relative (repoRoot tools_dir) (SCRIPTS_DIR tools_dir @ p) = js ''scripts'' # p)"
proof -
  let ?e = "script_entry
       (initial_meta\<lparr>name := Some (js ''foo''), description := Some (js ''d''), stdin := True\<rparr>)
       (js ''scripts/web/foo.sh'')"
  have stored: "scripts \<lparr> format_version = 1, updated = [], scripts = [js ''foo'' \<mapsto> ?e] \<rparr>
      (js ''foo'') = Some ?e"
    by simp
  from manifest_path_relative_to_repo_root [OF one_script_run [of "[]"] stored] one_script_run [of "[]"]
  show ?thesis by blast
qed

text \<open>
  Claim C2 as stated fails: for \<^verbatim>\<open>/repo/scripts/web/foo.sh\<close> the \<^verbatim>\<open>path\<close> field is
  \<^verbatim>\<open>scripts/web/foo.sh\<close>, while the path relative to the scanned directory is
  \<^verbatim>\<open>web/foo.sh\<close>.
\<close>

theorem path_not_relative_to_scan_root:
  "built_field (buildManifest tools_dir one_script_tree one_script_files []) (js ''foo'') ''path''
     = Some (JStr (js ''scripts/web/foo.sh'')) \<and>
   path_str (path_relative (SCRIPTS_DIR tools_dir)
      [js ''repo'', js ''scripts'', js ''web'', js ''foo.sh'']) = js ''web/foo.sh''"
  by (simp add: run one_script_tree_def one_script_files_def)

section \<open>Rejected files\<close>

text \<open>
  Claim C3. When the builder returns, the warnings it has recorded are, in the order of
  the walk, exactly those of the specification for each walked file: for a record without
  a name the one string \<^verbatim>\<open><relative-path>: missing @name\<close> (also when the description
  is missing too), otherwise for a record without a description the string
  \<^verbatim>\<open><relative-path>: missing @description\<close>, otherwise nothing. Every entry of the scripts
  mapping was stored for a walked file whose record has both, so a rejected file stores
  none; and the files after a rejected one are still processed: their warnings are in the
  list, and each accepted file's name is a key of the mapping (the name \<^verbatim>\<open>__proto__\<close>
  apart, which no assignment stores).
\<close>

theorem rejected_files_warned_and_excluded:
  assumes "buildManifest dirname tree rd now = Inr (mf, errors)"
  shows "\<exists>entries. walkDir tree (SCRIPTS_DIR dirname) (repoRoot dirname) = Inr entries \<and>
           errors = concat (map (entry_warnings rd) entries) \<and>
           (\<forall>k e. scripts mf k = Some e \<longrightarrow> (\<exists>en\<in>set entries. stored_by rd en k e)) \<and>
           (\<forall>en\<in>set entries. \<forall>k e. stored_by rd en k e \<and> k \<noteq> js ''__proto__''
               \<longrightarrow> scripts mf k \<noteq> None)"
proof -
  from assms obtain entries where
    walk: "walkDir tree (SCRIPTS_DIR dirname) (repoRoot dirname) = Inr entries"
    and loop: "build_loop rd Map.empty [] entries = Inr (scripts mf, errors)"
    by (rule buildManifest_Inr)
  have "errors = concat (map (entry_warnings rd) entries)"
    using build_loop_errors [OF loop] by simp
  moreover have "\<forall>k e. scripts mf k = Some e \<longrightarrow> (\<exists>en\<in>set entries. stored_by rd en k e)"
    using build_loop_stored [OF loop] by auto
  moreover have "\<forall>en\<in>set entries. \<forall>k e. stored_by rd en k e \<and> k \<noteq> js ''__proto__''
      \<longrightarrow> scripts mf k \<noteq> None"
    using build_loop_present [OF loop] by blast
  ultimately show ?thesis using walk by blast
qed

theorem rejected_files_warned_and_excluded_witness:
  "built_errors (buildManifest tools_dir mixed_tree mixed_files []) =
     Some [js ''scripts/a.sh: missing @name'', js ''scripts/b.sh: missing @description'',
           js ''scripts/d.sh: missing @name''] \<and>
   dom (built_scripts (buildManifest tools_dir mixed_tree mixed_files [])) = {js ''c''} \<and>
   (\<exists>entries. walkDir mixed_tree (SCRIPTS_DIR tools_dir) (repoRoot tools_dir) = Inr entries \<and>
       map snd entries = [js ''scripts/a.sh'', js ''scripts/b.sh'', js ''scripts/sub/c.sh'',
                          js ''scripts/d.sh''] \<and>
       [js ''scripts/a.sh: missing @name'', js ''scripts/b.sh: missing @description'',
        js ''scripts/d.sh: missing @name''] = concat (map (entry_warnings mixed_files) entries))"
proof -
  from rejected_files_warned_and_excluded [OF mixed_run [of "[]"]] obtain entries where
    walk: "walkDir mixed_tree (SCRIPTS_DIR tools_dir) (repoRoot tools_dir) = Inr entries"
    and errs: "[js ''scripts/a.sh: missing @name'', js ''scripts/b.sh: missing @description'',
        js ''scripts/d.sh: missing @name''] = concat (map (entry_warnings mixed_files) entries)"
    by auto
  have "map snd entries = [js ''scripts/a.sh'', js ''scripts/b.sh'', js ''scripts/sub/c.sh'',
                          js ''scripts/d.sh'']"
    using walk by (auto simp: run mixed_tree_def)
  with walk errs mixed_run [of "[]"] show ?thesis
    by (simp add: built_errors_def built_scripts_def)
qed

section \<open>Two files of one name\<close>

text \<open>
  The later of two accepted files of one name holds the entry, and neither adds a warning,
  for every name but \<^verbatim>\<open>__proto__\<close>.
\<close>

lemma later_file_replaces_entry:
  assumes "buildManifest dirname tree rd now = Inr (mf, errors)"
    and "walkDir tree (SCRIPTS_DIR dirname) (repoRoot dirname) = Inr (pre @ a # mid @ b # post)"
    and "stored_by rd a k ea" and "stored_by rd b k eb" and "k \<noteq> js ''__proto__''"
    and "\<forall>x\<in>set post. \<forall>e'. \<not> stored_by rd x k e'"
  shows "scripts mf k = Some eb \<and> errors = concat (map (entry_warnings rd) (pre @ mid @ post))"
proof -
  from assms(1,2) have loop:
    "build_loop rd Map.empty [] (pre @ a # mid @ b # post) = Inr (scripts mf, errors)"
    by (auto simp: buildManifest_def split: sum.splits)
  then have "build_loop rd Map.empty [] ((pre @ a # mid) @ b # post) = Inr (scripts mf, errors)"
    by simp
  from build_loop_last_wins [OF this assms(4,5,6)] have "scripts mf k = Some eb" .
  moreover have "entry_warnings rd a = []" "entry_warnings rd b = []"
    using assms(3,4)
    by (auto simp: stored_by_def entry_warnings_def spec_warnings_def accepted_def
             split: option.splits)
  then have "errors = concat (map (entry_warnings rd) (pre @ mid @ post))"
    using build_loop_errors [OF loop] by simp
  ultimately show ?thesis by simp
qed

text \<open>
  Claim C7 at two files that both declare \<^verbatim>\<open>@name __proto__\<close> and both pass the checks:
  the scripts mapping is left empty, without a warning. For two files named \<^verbatim>\<open>foo\<close> the
  entry is the one of the second file.
\<close>

theorem proto_name_collision_stores_nothing:
  "built_scripts (buildManifest tools_dir twin_tree proto_files []) = Map.empty \<and>
   built_errors (buildManifest tools_dir twin_tree proto_files []) = Some [] \<and>
   built_field (buildManifest tools_dir twin_tree twin_files []) (js ''foo'') ''description''
     = Some (JStr (js ''second''))"
  by (simp add: run twin_tree_def proto_files_def twin_files_def)

section \<open>The fields of an entry\<close>

lemma apply_directive_stdin:
  "stdin (apply_directive m tag v) =
     (if tag = js ''stdin'' then v = js ''true'' else stdin m)"
  by (simp add: apply_directive_def js_def split: option.splits prod.splits)

lemma parse_lines_stdin:
  "stdin (parse_lines m s ls) \<Longrightarrow>
   stdin m \<or> (\<exists>l\<in>set ls. \<exists>raw. DIRECTIVE_RE (trim l) = Some (js ''stdin'', raw) \<and>
                              trim raw = js ''true'')"
proof (induction ls arbitrary: m s)
  case Nil
  then show ?case by simp
next
  case (Cons x xs)
  show ?case
  proof (cases "is_directive_line x")
    case True
    then obtain tag raw where m: "DIRECTIVE_RE (trim x) = Some (tag, raw)"
      by (auto simp: is_directive_line_def)
    let ?m' = "apply_directive m tag (trim raw)"
    have "stdin (parse_lines ?m' True xs)"
      using Cons.prems m by (simp add: parse_lines_directive)
    from Cons.IH [OF this] show ?thesis
    proof
      assume "stdin ?m'"
      then show ?thesis
        using m by (cases "tag = js ''stdin''") (auto simp: apply_directive_stdin)
    next
      assume "\<exists>l\<in>set xs. \<exists>raw. DIRECTIVE_RE (trim l) = Some (js ''stdin'', raw) \<and>
                trim raw = js ''true''"
      then show ?thesis by auto
    qed
  next
    case False
    with Cons.prems have "stdin m \<or> stdin (parse_lines m s xs)"
      by (auto simp: parse_lines_not_directive split: if_splits)
    with Cons.IH [of m s] show ?thesis by auto
  qed
qed

text \<open>
  Claim C9. Every entry of the scripts mapping has exactly the fields name, description,
  args, deps, envs, output, header, category, tags, author, platform, examples, path and
  version, in this order; \<^verbatim>\<open>stdin\<close> is not among them, and the entry is the same whatever
  the \<^verbatim>\<open>stdin\<close> flag of the record is. The parser sets the flag only when the input has a
  \<^verbatim>\<open>@stdin\<close> directive whose trimmed value is the string \<^verbatim>\<open>true\<close>.
\<close>

theorem entry_fields_without_stdin:
  assumes "buildManifest dirname tree rd now = Inr (mf, errors)" and "scripts mf k = Some e"
  shows "obj_keys e = entry_fields \<and> ''stdin'' \<notin> set (obj_keys e) \<and>
         (\<exists>m rel. e = script_entry m rel \<and> (\<forall>b. script_entry (m\<lparr>stdin := b\<rparr>) rel = e)) \<and>
         (stdin (parseScript content) \<longrightarrow>
            (\<exists>l\<in>set (split_nl content). \<exists>raw.
                DIRECTIVE_RE (trim l) = Some (js ''stdin'', raw) \<and> trim raw = js ''true''))"
proof -
  from built_entry [OF assms] obtain p c where
    e: "e = script_entry (parseScript c) (path_str (js ''scripts'' # p))"
    by blast
  have "obj_keys e = entry_fields"
    using e by (simp add: script_entry_keys)
  moreover have "''stdin'' \<notin> set entry_fields"
    by (simp add: entry_fields_def)
  moreover have "\<exists>m rel. e = script_entry m rel \<and> (\<forall>b. script_entry (m\<lparr>stdin := b\<rparr>) rel = e)"
    using e script_entry_stdin by blast
  moreover have "stdin (parseScript content) \<longrightarrow>
            (\<exists>l\<in>set (split_nl content). \<exists>raw.
                DIRECTIVE_RE (trim l) = Some (js ''stdin'', raw) \<and> trim raw = js ''true'')"
    using parse_lines_stdin [of initial_meta False "split_nl content"]
    by (auto simp: parseScript_def initial_meta_def)
  ultimately show ?thesis by simp
qed

theorem entry_fields_without_stdin_witness:
  "stdin (parseScript (js ''#!/bin/bash\<newline># @name foo\<newline># @description d\<newline># @stdin true'')) \<and>
   built_field (buildManifest tools_dir one_script_tree one_script_files []) (js ''foo'') ''stdin''
     = None \<and>
   map_option obj_keys (built_scripts (buildManifest tools_dir one_script_tree one_script_files [])
      (js ''foo'')) = Some entry_fields \<and>
   DIRECTIVE_RE (trim (js ''# @stdin true'')) = Some (js ''stdin'', js ''true'')"
proof -
  let ?e = "script_entry
       (initial_meta\<lparr>name := Some (js ''foo''), description := Some (js ''d''), stdin := True\<rparr>)
       (js ''scripts/web/foo.sh'')"
  have stored: "scripts \<lparr> format_version = 1, updated = [], scripts = [js ''foo'' \<mapsto> ?e] \<rparr>
      (js ''foo'') = Some ?e"
    by simp
  have keys: "obj_keys ?e = entry_fields \<and> ''stdin'' \<notin> set (obj_keys ?e)"
    using entry_fields_without_stdin [OF one_script_run [of "[]"] stored] by blast
  have a: "stdin (parseScript (js ''#!/bin/bash\<newline># @name foo\<newline># @description d\<newline># @stdin true''))"
    by (simp add: ev parse_lines.simps(2))
  have b: "built_scripts (buildManifest tools_dir one_script_tree one_script_files []) (js ''foo'')
      = Some ?e"
    by (simp add: one_script_run built_scripts_def)
  have c: "obj_get ?e ''stdin'' = None"
    using keys by (simp add: obj_get_def obj_keys_def map_of_eq_None_iff)
  have d: "DIRECTIVE_RE (trim (js ''# @stdin true'')) = Some (js ''stdin'', js ''true'')"
    by (simp add: ev)
  show ?thesis
    using a b c d keys by (simp add: built_field_def)
qed

end
